theory Spec2Isabelle
  imports Complex_Main "HOL-Library.Char_ord" "HOL-Library.List_Lexorder"
begin

section \<open>Shared data model (models/UnitTypes.ts, lib/gridUtils.ts)\<close>

text \<open>
  JavaScript numbers are modelled as \<open>real\<close> where the code divides or multiplies by
  fractions (unit statistics, relation scores) and as \<open>int\<close> for grid coordinates,
  terrain movement costs and movement points, which the repository only ever fills with
  integers. Floating-point rounding, \<open>NaN\<close> and infinities are outside the model.
\<close>

datatype MovementType = GROUND | AIR

datatype UnitClass = INFANTRY | VEHICLE | AIRCRAFT

datatype Faction = PLAYER | ENEMY | NEUTRAL

text \<open>The string value of each \<open>Faction\<close> enum member.\<close>

fun faction_str :: "Faction \<Rightarrow> string" where
  "faction_str PLAYER = ''player''"
| "faction_str ENEMY = ''enemy''"
| "faction_str NEUTRAL = ''neutral''"

text \<open>\<open>UnitData\<close>, without the display colour.\<close>

record UnitData =
  unit_id :: string
  unit_name :: string
  unitClass :: UnitClass
  movementType :: MovementType
  movementPoints :: int
  faction :: Faction
  health :: real
  maxHealth :: real
  attackPower :: real
  attackRange :: real
  defense :: real
  detectionRange :: real
  aggressiveness :: real
  sensorWeight :: real
  healthWeight :: real
  allyWeight :: real
  fuelCurrent :: real
  fuelMax :: real
  fuelConsumptionRate :: real
  ammunitionCurrent :: real
  ammunitionMax :: real
  ammunitionConsumptionRate :: real

text \<open>Two entries of the \<open>UnitTypes\<close> table: \<open>infantry\<close> and \<open>enemy-infantry\<close>.\<close>

definition infantry :: UnitData where
  "infantry =
     \<lparr>unit_id = ''infantry'', unit_name = ''Infantry'', unitClass = INFANTRY,
      movementType = GROUND, movementPoints = 4, faction = PLAYER,
      health = 100, maxHealth = 100, attackPower = 30, attackRange = 2, defense = 10,
      detectionRange = 5, aggressiveness = 0.5, sensorWeight = 0.7, healthWeight = 0.5,
      allyWeight = 0.3, fuelCurrent = 50, fuelMax = 50, fuelConsumptionRate = 1,
      ammunitionCurrent = 30, ammunitionMax = 30, ammunitionConsumptionRate = 5\<rparr>"

definition enemy_infantry :: UnitData where
  "enemy_infantry =
     \<lparr>unit_id = ''enemy-infantry'', unit_name = ''Enemy Infantry'', unitClass = INFANTRY,
      movementType = GROUND, movementPoints = 4, faction = ENEMY,
      health = 90, maxHealth = 90, attackPower = 25, attackRange = 2, defense = 8,
      detectionRange = 4, aggressiveness = 0.8, sensorWeight = 0.7, healthWeight = 0.4,
      allyWeight = 0.6, fuelCurrent = 50, fuelMax = 50, fuelConsumptionRate = 1,
      ammunitionCurrent = 25, ammunitionMax = 25, ammunitionConsumptionRate = 5\<rparr>"

text \<open>
  Record fields are global constants, so fields whose source name is shared by several
  interfaces (\<open>position\<close>, \<open>faction\<close>, \<open>id\<close>, \<open>name\<close>) or is a common variable
  name (\<open>x\<close>, \<open>y\<close>) carry a prefix.
\<close>

record GridPosition =
  pos_x :: int
  pos_y :: int

definition manhattanDistance :: "GridPosition \<Rightarrow> GridPosition \<Rightarrow> int" where
  "manhattanDistance a b = \<bar>pos_x a - pos_x b\<bar> + \<bar>pos_y a - pos_y b\<bar>"

text \<open>
  \<open>getNeighbors\<close>: the four directions up, right, down, left in that order, keeping the
  positions inside the grid.
\<close>

definition directions :: "(int \<times> int) list" where
  "directions = [(0, -1), (1, 0), (0, 1), (-1, 0)]"

definition getNeighbors :: "GridPosition \<Rightarrow> int \<Rightarrow> int \<Rightarrow> GridPosition list" where
  "getNeighbors position width height =
     filter (\<lambda>newPos. pos_x newPos \<ge> 0 \<and> pos_x newPos < width
                       \<and> pos_y newPos \<ge> 0 \<and> pos_y newPos < height)
       (map (\<lambda>(dx, dy). \<lparr>pos_x = pos_x position + dx, pos_y = pos_y position + dy\<rparr>)
          directions)"

section \<open>DiplomacySystem (services/DiplomacySystem.ts)\<close>

datatype RelationshipStatus = WAR | HOSTILE | NEUTRAL_STATUS | FRIENDLY | ALLIED

record DiplomaticAction =
  action_type :: string
  description :: string
  action_value :: real
  origin :: Faction
  target :: Faction

text \<open>
  The object state: the relation table keyed by the relation key string, the append-only
  action history, and the registered listeners. A listener is a callback of the caller;
  it is represented by a handle, and a notification by the pair of the handle and the
  action delivered to it.
\<close>

record DiplomacySystem =
  relations :: "string \<rightharpoonup> real"
  actionHistory :: "DiplomaticAction list"
  actionListeners :: "nat list"

text \<open>\<open>getRelationKey\<close>: the two faction strings sorted and joined by an underscore.\<close>

definition getRelationKey :: "Faction \<Rightarrow> Faction \<Rightarrow> string" where
  "getRelationKey factionA factionB =
     (let sorted = sort [faction_str factionA, faction_str factionB]
      in sorted ! 0 @ ''_'' @ sorted ! 1)"

definition setRelation :: "DiplomacySystem \<Rightarrow> Faction \<Rightarrow> Faction \<Rightarrow> real \<Rightarrow> DiplomacySystem" where
  "setRelation ds factionA factionB v =
     (let clampedValue = max (-100) (min 100 v)
      in ds\<lparr>relations := (relations ds)(getRelationKey factionA factionB \<mapsto> clampedValue)\<rparr>)"

definition getRelation :: "DiplomacySystem \<Rightarrow> Faction \<Rightarrow> Faction \<Rightarrow> real" where
  "getRelation ds factionA factionB =
     (if factionA = factionB then 100
      else case relations ds (getRelationKey factionA factionB) of
             Some relation \<Rightarrow> relation
           | None \<Rightarrow> 0)"

definition notifyListeners :: "DiplomacySystem \<Rightarrow> DiplomaticAction \<Rightarrow> (nat \<times> DiplomaticAction) list" where
  "notifyListeners ds action = map (\<lambda>listener. (listener, action)) (actionListeners ds)"

text \<open>
  \<open>modifyRelation\<close> returns the new state together with the notifications it delivered,
  in registration order.
\<close>

definition modifyRelation ::
  "DiplomacySystem \<Rightarrow> Faction \<Rightarrow> Faction \<Rightarrow> real \<Rightarrow> string \<Rightarrow> string
     \<Rightarrow> DiplomacySystem \<times> (nat \<times> DiplomaticAction) list" where
  "modifyRelation ds factionA factionB delta actionType descr =
     (let currentRelation = getRelation ds factionA factionB;
          newRelation = max (-100) (min 100 (currentRelation + delta));
          ds1 = setRelation ds factionA factionB newRelation;
          action = \<lparr>action_type = actionType, description = descr, action_value = delta,
                    origin = factionA, target = factionB\<rparr>;
          ds2 = ds1\<lparr>actionHistory := actionHistory ds1 @ [action]\<rparr>
      in (ds2, notifyListeners ds2 action))"

definition getRelationshipStatus :: "DiplomacySystem \<Rightarrow> Faction \<Rightarrow> Faction \<Rightarrow> RelationshipStatus" where
  "getRelationshipStatus ds factionA factionB =
     (let score = getRelation ds factionA factionB
      in if score \<le> -60 then WAR
         else if score \<le> -20 then HOSTILE
         else if score < 20 then NEUTRAL_STATUS
         else if score < 60 then FRIENDLY
         else ALLIED)"

text \<open>The constructor: an empty table, then the three default relations.\<close>

definition DiplomacySystem_new :: DiplomacySystem where
  "DiplomacySystem_new =
     setRelation
       (setRelation
          (setRelation \<lparr>relations = Map.empty, actionHistory = [], actionListeners = []\<rparr>
             PLAYER ENEMY (-80))
          PLAYER NEUTRAL 0)
       ENEMY NEUTRAL (-10)"

text \<open>A call of one of the two mutators, and a sequence of such calls on one object.\<close>

datatype DiplomacyCall =
    SetRelation Faction Faction real
  | ModifyRelation Faction Faction real string string

fun run_call :: "DiplomacySystem \<Rightarrow> DiplomacyCall \<Rightarrow> DiplomacySystem" where
  "run_call ds (SetRelation a b v) = setRelation ds a b v"
| "run_call ds (ModifyRelation a b delta ty descr) = fst (modifyRelation ds a b delta ty descr)"

fun run_calls :: "DiplomacySystem \<Rightarrow> DiplomacyCall list \<Rightarrow> DiplomacySystem" where
  "run_calls ds [] = ds"
| "run_calls ds (c # cs) = run_calls (run_call ds c) cs"

definition relations_bounded :: "DiplomacySystem \<Rightarrow> bool" where
  "relations_bounded ds = (\<forall>k v. relations ds k = Some v \<longrightarrow> -100 \<le> v \<and> v \<le> 100)"

section \<open>Terrain and map (models/TerrainTypes.ts, services/MapGenerator.ts)\<close>

datatype TerrainType = WATER | PLAINS | FOREST | MOUNTAIN

text \<open>\<open>TerrainData\<close> without its display fields (colour, display name, resource).\<close>

record TerrainData =
  terrain_type :: TerrainType
  movementCost :: int
  isWalkable :: bool
  isFlyable :: bool

fun TerrainTiles :: "TerrainType \<Rightarrow> TerrainData" where
  "TerrainTiles WATER =
     \<lparr>terrain_type = WATER, movementCost = 99, isWalkable = False, isFlyable = True\<rparr>"
| "TerrainTiles PLAINS =
     \<lparr>terrain_type = PLAINS, movementCost = 1, isWalkable = True, isFlyable = True\<rparr>"
| "TerrainTiles FOREST =
     \<lparr>terrain_type = FOREST, movementCost = 2, isWalkable = True, isFlyable = True\<rparr>"
| "TerrainTiles MOUNTAIN =
     \<lparr>terrain_type = MOUNTAIN, movementCost = 3, isWalkable = True, isFlyable = True\<rparr>"

record Tile =
  tile_position :: GridPosition
  terrain :: TerrainData

record GameMap =
  width :: int
  height :: int
  tiles :: "Tile list list"

text \<open>
  \<open>map.tiles[pos.y][pos.x]\<close> followed by a property read: an index outside the array
  yields \<open>undefined\<close>, and reading a property of \<open>undefined\<close> throws a TypeError.
\<close>

datatype error = TypeError

definition tileAt :: "GameMap \<Rightarrow> GridPosition \<Rightarrow> error + Tile" where
  "tileAt m pos =
     (if 0 \<le> pos_y pos \<and> nat (pos_y pos) < length (tiles m) then
        (let row = tiles m ! nat (pos_y pos)
         in if 0 \<le> pos_x pos \<and> nat (pos_x pos) < length row
            then Inr (row ! nat (pos_x pos)) else Inl TypeError)
      else Inl TypeError)"

text \<open>
  A map as \<open>generateMap\<close> builds it, from the terrain type of every cell: the tile at
  row \<open>j\<close>, column \<open>i\<close> has position \<open>(i, j)\<close> and the table entry of its terrain.
\<close>

definition mapOfTerrain :: "TerrainType list list \<Rightarrow> GameMap" where
  "mapOfTerrain rows =
     \<lparr>width = (case rows of [] \<Rightarrow> 0 | row # _ \<Rightarrow> int (length row)),
      height = int (length rows),
      tiles = map (\<lambda>(j, row). map (\<lambda>(i, t).
                 \<lparr>tile_position = \<lparr>pos_x = int i, pos_y = int j\<rparr>, terrain = TerrainTiles t\<rparr>)
                 (enumerate 0 row)) (enumerate 0 rows)\<rparr>"

text \<open>A four by four map used for the concrete instances below.\<close>

definition sampleMap :: GameMap where
  "sampleMap = mapOfTerrain
     [[PLAINS, FOREST, PLAINS, PLAINS],
      [PLAINS, MOUNTAIN, WATER, PLAINS],
      [PLAINS, PLAINS, FOREST, PLAINS],
      [WATER, PLAINS, PLAINS, PLAINS]]"

section \<open>SupplySystem (services/SupplySystem.ts)\<close>

record SupplyBase =
  base_id :: string
  base_position :: GridPosition
  base_faction :: Faction
  base_name :: string
  fuelProduction :: real
  ammunitionProduction :: real
  supplyRange :: real
  capturable :: bool

text \<open>
  Of the object state only the base list matters to the methods modelled here; the map,
  the path finder and the cached supply routes are left out.
\<close>

record SupplySystem =
  bases :: "SupplyBase list"

text \<open>
  Unit objects are shared and mutated in place by the supply and combat systems, so they
  live in a store addressed by reference; a method that mutates a unit takes the store
  and the reference and returns the new store.
\<close>

type_synonym unit_ref = nat
type_synonym unit_store = "unit_ref \<Rightarrow> UnitData"

definition addBase :: "SupplySystem \<Rightarrow> SupplyBase \<Rightarrow> SupplySystem" where
  "addBase ss base = ss\<lparr>bases := bases ss @ [base]\<rparr>"

text \<open>The constructor: the two headquarters and the three capturable outposts.\<close>

definition SupplySystem_new :: "GameMap \<Rightarrow> SupplySystem" where
  "SupplySystem_new m =
     foldl addBase \<lparr>bases = []\<rparr>
       [\<lparr>base_id = ''player-hq'', base_position = \<lparr>pos_x = 2, pos_y = 2\<rparr>,
         base_faction = PLAYER, base_name = ''Player HQ'', fuelProduction = 20,
         ammunitionProduction = 15, supplyRange = 8, capturable = False\<rparr>,
        \<lparr>base_id = ''enemy-hq'',
         base_position = \<lparr>pos_x = width m - 3, pos_y = height m - 3\<rparr>,
         base_faction = ENEMY, base_name = ''Enemy HQ'', fuelProduction = 20,
         ammunitionProduction = 15, supplyRange = 8, capturable = False\<rparr>,
        \<lparr>base_id = ''outpost-1'',
         base_position = \<lparr>pos_x = \<lfloor>real_of_int (width m) / 2\<rfloor>,
                           pos_y = \<lfloor>real_of_int (height m) / 2\<rfloor>\<rparr>,
         base_faction = NEUTRAL, base_name = ''Central Outpost'', fuelProduction = 15,
         ammunitionProduction = 10, supplyRange = 6, capturable = True\<rparr>,
        \<lparr>base_id = ''outpost-2'',
         base_position = \<lparr>pos_x = \<lfloor>real_of_int (width m) / 3\<rfloor>,
                           pos_y = \<lfloor>real_of_int (height m) / 3 * 2\<rfloor>\<rparr>,
         base_faction = NEUTRAL, base_name = ''West Outpost'', fuelProduction = 10,
         ammunitionProduction = 5, supplyRange = 5, capturable = True\<rparr>,
        \<lparr>base_id = ''outpost-3'',
         base_position = \<lparr>pos_x = \<lfloor>real_of_int (width m) / 3 * 2\<rfloor>,
                           pos_y = \<lfloor>real_of_int (height m) / 3\<rfloor>\<rparr>,
         base_faction = NEUTRAL, base_name = ''East Outpost'', fuelProduction = 5,
         ammunitionProduction = 10, supplyRange = 5, capturable = True\<rparr>]"

definition getBasesByFaction :: "SupplySystem \<Rightarrow> Faction \<Rightarrow> SupplyBase list" where
  "getBasesByFaction ss f = filter (\<lambda>base. base_faction base = f) (bases ss)"

text \<open>\<open>Array.prototype.findIndex\<close>: the index of the first match, or -1.\<close>

fun findIndex_from :: "('a \<Rightarrow> bool) \<Rightarrow> 'a list \<Rightarrow> int \<Rightarrow> int" where
  "findIndex_from P [] i = -1"
| "findIndex_from P (e # es) i = (if P e then i else findIndex_from P es (i + 1))"

definition findIndex :: "('a \<Rightarrow> bool) \<Rightarrow> 'a list \<Rightarrow> int" where
  "findIndex P es = findIndex_from P es 0"

definition captureBase :: "SupplySystem \<Rightarrow> string \<Rightarrow> Faction \<Rightarrow> bool \<times> SupplySystem" where
  "captureBase ss baseId newFaction =
     (let baseIndex = findIndex (\<lambda>base. base_id base = baseId) (bases ss)
      in if baseIndex = -1 \<or> \<not> capturable (bases ss ! nat baseIndex) then (False, ss)
         else (True,
               ss\<lparr>bases := (bases ss)[nat baseIndex :=
                               (bases ss ! nat baseIndex)\<lparr>base_faction := newFaction\<rparr>]\<rparr>))"

record SupplyInfo =
  inSupplyRange :: bool
  nearestBase :: "SupplyBase option"
  supplyDistance :: "int option"
  canReceiveFuel :: bool
  canReceiveAmmo :: bool

text \<open>
  The scan of \<open>calculateUnitSupply\<close> over the unit's factional bases. The loop variables
  are \<open>nearestBase\<close> (\<open>None\<close> for \<open>undefined\<close>) and \<open>minDistance\<close> (\<open>None\<close> for
  \<open>Infinity\<close>).
\<close>

fun supplyScan ::
  "GridPosition \<Rightarrow> SupplyBase list \<Rightarrow> SupplyBase option \<times> int option
     \<Rightarrow> SupplyBase option \<times> int option" where
  "supplyScan unitPosition [] acc = acc"
| "supplyScan unitPosition (base # rest) (nearest, minDistance) =
     (let distance = manhattanDistance unitPosition (base_position base)
      in if real_of_int distance \<le> supplyRange base
            \<and> (case minDistance of None \<Rightarrow> True | Some m \<Rightarrow> distance < m)
         then supplyScan unitPosition rest (Some base, Some distance)
         else supplyScan unitPosition rest (nearest, minDistance))"

definition calculateUnitSupply :: "SupplySystem \<Rightarrow> UnitData \<Rightarrow> GridPosition \<Rightarrow> SupplyInfo" where
  "calculateUnitSupply ss unit unitPosition =
     (let factionalBases = getBasesByFaction ss (faction unit);
          (nearest, minDistance) = supplyScan unitPosition factionalBases (None, None)
      in \<lparr>inSupplyRange = (nearest \<noteq> None),
          nearestBase = nearest,
          supplyDistance = (if nearest \<noteq> None then minDistance else None),
          canReceiveFuel = (case nearest of None \<Rightarrow> False | Some b \<Rightarrow> fuelProduction b > 0),
          canReceiveAmmo =
            (case nearest of None \<Rightarrow> False | Some b \<Rightarrow> ammunitionProduction b > 0)\<rparr>)"

record ResourceConsumption =
  rc_fuelConsumed :: real
  rc_ammunitionConsumed :: real

definition calculateCombatConsumption :: "UnitData \<Rightarrow> ResourceConsumption" where
  "calculateCombatConsumption unit =
     \<lparr>rc_fuelConsumed = 0, rc_ammunitionConsumed = ammunitionConsumptionRate unit\<rparr>"

record AttackCheck =
  canAttack :: bool
  reason :: "string option"

definition canUnitAttack :: "UnitData \<Rightarrow> AttackCheck" where
  "canUnitAttack unit =
     (let consumption = calculateCombatConsumption unit
      in if ammunitionCurrent unit < rc_ammunitionConsumed consumption
         then \<lparr>canAttack = False, reason = Some ''Not enough ammunition''\<rparr>
         else \<lparr>canAttack = True, reason = None\<rparr>)"

record ResupplyResult =
  fuelAdded :: real
  ammoAdded :: real
  resupplied :: bool

definition resupplyUnit ::
  "SupplySystem \<Rightarrow> unit_store \<Rightarrow> unit_ref \<Rightarrow> GridPosition \<Rightarrow> ResupplyResult \<times> unit_store" where
  "resupplyUnit ss store unitRef unitPosition =
     (let unit = store unitRef;
          supplyInfo = calculateUnitSupply ss unit unitPosition;
          notSupplied = (\<lparr>fuelAdded = 0, ammoAdded = 0, resupplied = False\<rparr>, store)
      in if \<not> inSupplyRange supplyInfo then notSupplied
         else case nearestBase supplyInfo of
                None \<Rightarrow> notSupplied
              | Some base \<Rightarrow>
                  (let fuelNeeded = fuelMax unit - fuelCurrent unit;
                       ammoNeeded = ammunitionMax unit - ammunitionCurrent unit;
                       fuelAdded = min fuelNeeded (fuelProduction base);
                       ammoAdded = min ammoNeeded (ammunitionProduction base);
                       unit1 = unit\<lparr>fuelCurrent := fuelCurrent unit + fuelAdded\<rparr>;
                       unit2 = unit1\<lparr>ammunitionCurrent := ammunitionCurrent unit1 + ammoAdded\<rparr>
                   in (\<lparr>fuelAdded = fuelAdded, ammoAdded = ammoAdded,
                        resupplied = (fuelAdded > 0 \<or> ammoAdded > 0)\<rparr>,
                       store(unitRef := unit2))))"

section \<open>CombatSystem (services/CombatSystem.ts)\<close>

record DiplomaticConsequence =
  dc_type :: string
  dc_value :: real
  dc_description :: string

record CombatResult =
  cr_attacker :: unit_ref
  cr_defender :: unit_ref
  damage :: real
  isKill :: bool
  defenderRemainingHealth :: real
  ammunitionConsumed :: real
  diplomaticConsequence :: "DiplomaticConsequence option"

record TerrainModifiers =
  attackModifier :: real
  defenseModifier :: real

record CombatSystem =
  cs_map :: GameMap
  diplomacySystem :: "DiplomacySystem option"
  supplySystem :: "SupplySystem option"

fun classAdvantage :: "UnitClass \<Rightarrow> UnitClass \<Rightarrow> real" where
  "classAdvantage INFANTRY INFANTRY = 1.0"
| "classAdvantage INFANTRY VEHICLE = 0.7"
| "classAdvantage INFANTRY AIRCRAFT = 0.4"
| "classAdvantage VEHICLE INFANTRY = 1.5"
| "classAdvantage VEHICLE VEHICLE = 1.0"
| "classAdvantage VEHICLE AIRCRAFT = 0.6"
| "classAdvantage AIRCRAFT INFANTRY = 1.8"
| "classAdvantage AIRCRAFT VEHICLE = 1.4"
| "classAdvantage AIRCRAFT AIRCRAFT = 1.0"

fun getTerrainModifiers :: "TerrainType \<Rightarrow> TerrainModifiers" where
  "getTerrainModifiers PLAINS = \<lparr>attackModifier = 1.0, defenseModifier = 1.0\<rparr>"
| "getTerrainModifiers FOREST = \<lparr>attackModifier = 0.9, defenseModifier = 1.2\<rparr>"
| "getTerrainModifiers MOUNTAIN = \<lparr>attackModifier = 1.1, defenseModifier = 1.3\<rparr>"
| "getTerrainModifiers WATER = \<lparr>attackModifier = 0.8, defenseModifier = 0.7\<rparr>"

text \<open>\<open>Math.round\<close>: the nearest integer, halves rounded up.\<close>

definition Math_round :: "real \<Rightarrow> real" where
  "Math_round v = real_of_int \<lfloor>v + 1 / 2\<rfloor>"

text \<open>
  What a call of \<open>resolveCombat\<close> leaves behind whether it returns or throws: the unit
  store, the combat system (whose diplomacy ledger the call may have written to) and the
  listener notifications delivered; and the value, a result or the error thrown.
\<close>

record CombatOutcome =
  co_value :: "error + CombatResult"
  co_store :: unit_store
  co_system :: CombatSystem
  co_notified :: "(nat \<times> DiplomaticAction) list"

text \<open>
  The part of \<open>resolveCombat\<close> after the ammunition check, from the terrain lookups on.
\<close>

definition resolveDamage ::
  "CombatSystem \<Rightarrow> unit_store \<Rightarrow> unit_ref \<Rightarrow> GridPosition \<Rightarrow> unit_ref \<Rightarrow> GridPosition
     \<Rightarrow> real \<Rightarrow> CombatOutcome" where
  "resolveDamage cs store attackerRef attackerPos defenderRef defenderPos consumed =
     (let attacker = store attackerRef; defender = store defenderRef;
          failed = \<lparr>co_value = Inl TypeError, co_store = store, co_system = cs, co_notified = []\<rparr>
      in case tileAt (cs_map cs) attackerPos of
           Inl e \<Rightarrow> failed
         | Inr attackerTile \<Rightarrow>
        (case tileAt (cs_map cs) defenderPos of
           Inl e \<Rightarrow> failed
         | Inr defenderTile \<Rightarrow>
        (let attackerMods = getTerrainModifiers (terrain_type (terrain attackerTile));
             defenderMods = getTerrainModifiers (terrain_type (terrain defenderTile));
             damage0 = attackPower attacker;
             damage1 = damage0 * classAdvantage (unitClass attacker) (unitClass defender);
             damage2 = damage1 * attackModifier attackerMods;
             effectiveDefense = defense defender * defenseModifier defenderMods;
             damage3 = (case supplySystem cs of
                          None \<Rightarrow> damage2
                        | Some ss \<Rightarrow>
                            if \<not> inSupplyRange (calculateUnitSupply ss defender defenderPos)
                            then damage2 * 1.2 else damage2);
             finalDamage = max 1 (Math_round (damage3 - effectiveDefense));
             remainingHealth = max 0 (health defender - finalDamage);
             kill = (remainingHealth \<le> 0);
             actionType = (if kill then ''DESTROY_UNIT'' else ''ATTACK_UNIT'');
             actionValue = (if kill then -25 else -15);
             result = \<lparr>cr_attacker = attackerRef, cr_defender = defenderRef,
                       damage = finalDamage, isKill = kill,
                       defenderRemainingHealth = remainingHealth,
                       ammunitionConsumed = consumed, diplomaticConsequence = None\<rparr>
         in case diplomacySystem cs of
              Some ds \<Rightarrow>
                if faction attacker \<noteq> faction defender then
                  (let (ds', notified) =
                         modifyRelation ds (faction attacker) (faction defender) actionValue
                           actionType
                           (unit_name attacker @ '' ''
                              @ (if kill then ''destroyed'' else ''attacked'') @ '' ''
                              @ unit_name defender)
                   in \<lparr>co_value = Inr (result\<lparr>diplomaticConsequence :=
                          Some \<lparr>dc_type = actionType, dc_value = actionValue,
                                dc_description =
                                  (if kill then ''Destroying'' else ''Attacking'')
                                  @ '' enemy units decreases diplomatic relations''\<rparr>\<rparr>),
                        co_store = store, co_system = cs\<lparr>diplomacySystem := Some ds'\<rparr>,
                        co_notified = notified\<rparr>)
                else \<lparr>co_value = Inr result, co_store = store, co_system = cs,
                      co_notified = []\<rparr>
            | None \<Rightarrow> \<lparr>co_value = Inr result, co_store = store, co_system = cs,
                        co_notified = []\<rparr>)))"

definition resolveCombat ::
  "CombatSystem \<Rightarrow> unit_store \<Rightarrow> unit_ref \<Rightarrow> GridPosition \<Rightarrow> unit_ref \<Rightarrow> GridPosition
     \<Rightarrow> CombatOutcome" where
  "resolveCombat cs store attackerRef attackerPos defenderRef defenderPos =
     (case supplySystem cs of
        Some ss \<Rightarrow>
          (let supplyCheck = canUnitAttack (store attackerRef)
           in if \<not> canAttack supplyCheck then
                \<lparr>co_value = Inr \<lparr>cr_attacker = attackerRef, cr_defender = defenderRef,
                     damage = 1, isKill = (health (store defenderRef) \<le> 1),
                     defenderRemainingHealth = max 0 (health (store defenderRef) - 1),
                     ammunitionConsumed = 0, diplomaticConsequence = None\<rparr>,
                  co_store = store, co_system = cs, co_notified = []\<rparr>
              else
                (let consumed = ammunitionConsumptionRate (store attackerRef);
                     store1 = store(attackerRef := (store attackerRef)
                                \<lparr>ammunitionCurrent :=
                                   ammunitionCurrent (store attackerRef) - consumed\<rparr>)
                 in resolveDamage cs store1 attackerRef attackerPos defenderRef defenderPos
                      consumed))
      | None \<Rightarrow> resolveDamage cs store attackerRef attackerPos defenderRef defenderPos 0)"

section \<open>UtilityAI (services/UtilityAI.ts)\<close>

datatype AIAction = IDLE | MOVE_TO_ENEMY | ATTACK | RETREAT | PATROL

record UnitAt =
  unitData :: UnitData
  ua_position :: GridPosition

text \<open>
  The context fields that \<open>evaluateMoveToEnemy\<close> reads, and the two unit lists.
\<close>

record AIContext =
  ctx_unit :: UnitData
  ctx_position :: GridPosition
  enemies :: "UnitAt list"
  allies :: "UnitAt list"

record UtilityResult =
  action :: AIAction
  score :: real
  targetPosition :: "GridPosition option"
  targetUnit :: "UnitData option"

text \<open>
  The loop of \<open>evaluateMoveToEnemy\<close>; its variables are \<open>highestScore\<close>,
  \<open>targetEnemy\<close> and \<open>targetPosition\<close>. The quotients \<open>health / maxHealth\<close> and
  \<open>distance / detectionRange\<close> are real division, which agrees with the code when the
  divisor is not zero.
\<close>

fun pursueScan ::
  "UnitData \<Rightarrow> GridPosition \<Rightarrow> UnitAt list \<Rightarrow> real \<times> UnitData option \<times> GridPosition option
     \<Rightarrow> real \<times> UnitData option \<times> GridPosition option" where
  "pursueScan unit position [] acc = acc"
| "pursueScan unit position (enemy # rest) (highestScore, targetEnemy, targetPos) =
     (let distance = real_of_int (manhattanDistance position (ua_position enemy))
      in if distance > attackRange unit \<and> distance \<le> detectionRange unit then
           (let healthRatio = health unit / maxHealth unit;
                sc = (aggressiveness unit * 0.6) + (sensorWeight unit * 0.3)
                     + (if healthRatio > 0.7 then 0.2 else -0.1)
                     + (1 - (distance / detectionRange unit) * 0.2)
            in if sc > highestScore
               then pursueScan unit position rest
                      (sc, Some (unitData enemy), Some (ua_position enemy))
               else pursueScan unit position rest (highestScore, targetEnemy, targetPos))
         else pursueScan unit position rest (highestScore, targetEnemy, targetPos))"

definition evaluateMoveToEnemy :: "AIContext \<Rightarrow> UtilityResult" where
  "evaluateMoveToEnemy context =
     (let unit = ctx_unit context; position = ctx_position context
      in if length (enemies context) = 0
         then \<lparr>action = MOVE_TO_ENEMY, score = 0, targetPosition = None, targetUnit = None\<rparr>
         else (let (highestScore, targetEnemy, targetPos) =
                     pursueScan unit position (enemies context) (0, None, None)
               in \<lparr>action = MOVE_TO_ENEMY, score = highestScore,
                   targetPosition = targetPos, targetUnit = targetEnemy\<rparr>))"

section \<open>BehaviorTree (services/BehaviorTree.ts)\<close>

datatype NodeState = SUCCESS | FAILURE | RUNNING

record CheckEnemyByDiplomacyNode =
  node_state :: NodeState
  node_unit :: UnitData
  node_pos :: GridPosition
  node_units :: "UnitAt list"
  relationshipStatus :: RelationshipStatus
  node_range :: real

text \<open>
  The constructor; the optional \<open>range\<close> argument defaults to -1, and a range that is
  not positive is replaced by the unit's detection range.
\<close>

definition CheckEnemyByDiplomacyNode_new ::
  "UnitData \<Rightarrow> GridPosition \<Rightarrow> UnitAt list \<Rightarrow> RelationshipStatus \<Rightarrow> real option
     \<Rightarrow> CheckEnemyByDiplomacyNode" where
  "CheckEnemyByDiplomacyNode_new unit position units status rangeArg =
     (let range = (case rangeArg of None \<Rightarrow> -1 | Some r \<Rightarrow> r)
      in \<lparr>node_state = FAILURE, node_unit = unit, node_pos = position, node_units = units,
          relationshipStatus = status,
          node_range = (if range > 0 then range else detectionRange unit)\<rparr>)"

text \<open>\<open>execute\<close> stores the state in the node and returns it.\<close>

definition execute :: "CheckEnemyByDiplomacyNode \<Rightarrow> NodeState \<times> CheckEnemyByDiplomacyNode" where
  "execute node =
     (let hostileUnits = filter (\<lambda>other.
            if (relationshipStatus node = WAR \<or> relationshipStatus node = HOSTILE)
               \<and> faction (unitData other) = faction (node_unit node)
            then False
            else (let distance = manhattanDistance (node_pos node) (ua_position other)
                  in real_of_int distance \<le> node_range node)) (node_units node);
          st = (if length hostileUnits > 0 then SUCCESS else FAILURE)
      in (st, node\<lparr>node_state := st\<rparr>))"

section \<open>PathFinder (services/PathFinder.ts)\<close>

text \<open>
  A path node carries its parent link. A node object is only mutated while it sits in the
  open list, and the parent of a node is always a node that has already left the open
  list, so no mutated object is referred to from elsewhere and nodes are modelled as
  values.
\<close>

datatype PathNode =
  PathNode (node_position: GridPosition) (gCost: int) (hCost: int) (fCost: int)
    (parent: "PathNode option")

record Path =
  path :: "GridPosition list"
  cost :: int

text \<open>\<open>reconstructPath\<close>: the positions from the root of the parent chain to the node.\<close>

fun nodeChain :: "PathNode \<Rightarrow> GridPosition list" where
  "nodeChain (PathNode p g h f None) = [p]"
| "nodeChain (PathNode p g h f (Some par)) = nodeChain par @ [p]"

definition reconstructPath :: "PathNode \<Rightarrow> Path" where
  "reconstructPath endNode = \<lparr>path = nodeChain endNode, cost = gCost endNode\<rparr>"

text \<open>
  The update of an open node in place: the first node of the open list at that position
  gets the new cost, the matching total and the new parent, and keeps its heuristic.
\<close>

fun updateExisting :: "GridPosition \<Rightarrow> int \<Rightarrow> PathNode \<Rightarrow> PathNode list \<Rightarrow> PathNode list" where
  "updateExisting neighborPos g currentNode [] = []"
| "updateExisting neighborPos g currentNode (node # rest) =
     (if pos_x (node_position node) = pos_x neighborPos
         \<and> pos_y (node_position node) = pos_y neighborPos
      then PathNode (node_position node) g (hCost node) (g + hCost node) (Some currentNode) # rest
      else node # updateExisting neighborPos g currentNode rest)"

text \<open>
  The closed set of \<open>findPath\<close> and the result of \<open>findMovementRange\<close> are maps keyed
  by \<open>posToKey\<close>, the string of the two coordinates, which determines the position; the
  model keys them by the position itself.

  \<open>processNeighbors\<close> is the \<open>for\<close> loop over the neighbours of the current node in
  \<open>findPath\<close>; it yields the open list after the loop, or the error of a failed tile
  lookup. The optional \<open>maxMovementPoints\<close> is \<open>None\<close> when the argument is absent.
\<close>

fun processNeighbors ::
  "GameMap \<Rightarrow> MovementType \<Rightarrow> int option \<Rightarrow> GridPosition \<Rightarrow> (GridPosition \<rightharpoonup> PathNode)
     \<Rightarrow> PathNode \<Rightarrow> GridPosition list \<Rightarrow> PathNode list \<Rightarrow> error + PathNode list" where
  "processNeighbors m mt maxMovementPoints endPos closedSet currentNode [] openSet = Inr openSet"
| "processNeighbors m mt maxMovementPoints endPos closedSet currentNode (neighborPos # rest) openSet =
     (case tileAt m neighborPos of
        Inl e \<Rightarrow> Inl e
      | Inr neighborTile \<Rightarrow>
          if (mt = GROUND \<and> \<not> isWalkable (terrain neighborTile))
             \<or> (mt = AIR \<and> \<not> isFlyable (terrain neighborTile))
             \<or> closedSet neighborPos \<noteq> None
          then processNeighbors m mt maxMovementPoints endPos closedSet currentNode rest openSet
          else
            (let movementCost' = (if mt = AIR then 1 else movementCost (terrain neighborTile));
                 g = gCost currentNode + movementCost'
             in if (case maxMovementPoints of None \<Rightarrow> False | Some limit \<Rightarrow> g > limit)
                then processNeighbors m mt maxMovementPoints endPos closedSet currentNode rest
                       openSet
                else
                  (case find (\<lambda>node. pos_x (node_position node) = pos_x neighborPos
                                   \<and> pos_y (node_position node) = pos_y neighborPos) openSet of
                     None \<Rightarrow>
                       (let h = manhattanDistance neighborPos endPos
                        in processNeighbors m mt maxMovementPoints endPos closedSet currentNode
                             rest (openSet @ [PathNode neighborPos g h (g + h) (Some currentNode)]))
                   | Some existingOpenNode \<Rightarrow>
                       if g < gCost existingOpenNode
                       then processNeighbors m mt maxMovementPoints endPos closedSet currentNode
                              rest (updateExisting neighborPos g currentNode openSet)
                       else processNeighbors m mt maxMovementPoints endPos closedSet currentNode
                              rest openSet)))"

text \<open>
  The \<open>while\<close> loop of \<open>findPath\<close>. Nothing in the code bounds the number of its
  rounds, so the loop is a partial function: the outer \<open>option\<close> is \<open>None\<close> when the
  loop does not return; inside, the value is the error thrown, or the returned path
  (\<open>None\<close> for \<open>null\<close>). The sort is the stable sort by \<open>fCost\<close>.
\<close>

partial_function (option) findPath_loop ::
  "GameMap \<Rightarrow> MovementType \<Rightarrow> int option \<Rightarrow> GridPosition \<Rightarrow> PathNode list
     \<Rightarrow> (GridPosition \<rightharpoonup> PathNode) \<Rightarrow> (error + Path option) option" where
  "findPath_loop m mt maxMovementPoints endPos openSet closedSet =
     (if length openSet > 0 then
        (let sorted = sort_key fCost openSet;
             currentNode = hd sorted;
             openSet1 = tl sorted
         in if pos_x (node_position currentNode) = pos_x endPos
               \<and> pos_y (node_position currentNode) = pos_y endPos
            then Some (Inr (Some (reconstructPath currentNode)))
            else
              (let closedSet1 = closedSet(node_position currentNode \<mapsto> currentNode)
               in case processNeighbors m mt maxMovementPoints endPos closedSet1 currentNode
                         (getNeighbors (node_position currentNode) (width m) (height m)) openSet1 of
                    Inl e \<Rightarrow> Some (Inl e)
                  | Inr openSet2 \<Rightarrow>
                      findPath_loop m mt maxMovementPoints endPos openSet2 closedSet1))
      else Some (Inr None))"

declare findPath_loop.simps [code]

definition findPath ::
  "GameMap \<Rightarrow> GridPosition \<Rightarrow> GridPosition \<Rightarrow> MovementType \<Rightarrow> int option
     \<Rightarrow> (error + Path option) option" where
  "findPath m startPos endPos mt maxMovementPoints =
     (if pos_x startPos = pos_x endPos \<and> pos_y startPos = pos_y endPos
      then Some (Inr (Some \<lparr>path = [], cost = 0\<rparr>))
      else
        (let h = manhattanDistance startPos endPos;
             startNode = PathNode startPos 0 h (0 + h) None
         in findPath_loop m mt maxMovementPoints endPos [startNode] Map.empty))"

text \<open>
  \<open>rangeNeighbors\<close> is the \<open>for\<close> loop of \<open>findMovementRange\<close> over the neighbours of
  the dequeued position, on the pair of the cost table and the queue. The cost of the
  dequeued position is read from the table; the code asserts that it is present (without
  it the sum is \<open>NaN\<close> and both comparisons fail, so the neighbour is skipped).
\<close>

fun rangeNeighbors ::
  "GameMap \<Rightarrow> MovementType \<Rightarrow> int \<Rightarrow> GridPosition \<Rightarrow> GridPosition list
     \<Rightarrow> (GridPosition \<rightharpoonup> int) \<times> (GridPosition \<times> int) list
     \<Rightarrow> error + (GridPosition \<rightharpoonup> int) \<times> (GridPosition \<times> int) list" where
  "rangeNeighbors m mt movementPts pos [] (reachableTiles, queue) = Inr (reachableTiles, queue)"
| "rangeNeighbors m mt movementPts pos (neighborPos # rest) (reachableTiles, queue) =
     (case tileAt m neighborPos of
        Inl e \<Rightarrow> Inl e
      | Inr neighborTile \<Rightarrow>
          if (mt = GROUND \<and> \<not> isWalkable (terrain neighborTile))
             \<or> (mt = AIR \<and> \<not> isFlyable (terrain neighborTile))
          then rangeNeighbors m mt movementPts pos rest (reachableTiles, queue)
          else
            (case reachableTiles pos of
               None \<Rightarrow> rangeNeighbors m mt movementPts pos rest (reachableTiles, queue)
             | Some costHere \<Rightarrow>
                 (let movementCost' = (if mt = AIR then 1 else movementCost (terrain neighborTile));
                      costToEnter = costHere + movementCost'
                  in if (case reachableTiles neighborPos of
                           None \<Rightarrow> True
                         | Some known \<Rightarrow> costToEnter < known)
                        \<and> costToEnter \<le> movementPts
                     then
                       (let reachableTiles1 = reachableTiles(neighborPos \<mapsto> costToEnter);
                            newRemainingPoints = movementPts - costToEnter
                        in if newRemainingPoints > 0
                           then rangeNeighbors m mt movementPts pos rest
                                  (reachableTiles1, queue @ [(neighborPos, newRemainingPoints)])
                           else rangeNeighbors m mt movementPts pos rest (reachableTiles1, queue))
                     else rangeNeighbors m mt movementPts pos rest (reachableTiles, queue))))"

text \<open>The \<open>while\<close> loop of \<open>findMovementRange\<close> over the queue, again a partial function.\<close>

partial_function (option) findMovementRange_loop ::
  "GameMap \<Rightarrow> MovementType \<Rightarrow> int \<Rightarrow> (GridPosition \<times> int) list \<Rightarrow> (GridPosition \<rightharpoonup> int)
     \<Rightarrow> (error + (GridPosition \<rightharpoonup> int)) option" where
  "findMovementRange_loop m mt movementPts queue reachableTiles =
     (case queue of
        [] \<Rightarrow> Some (Inr reachableTiles)
      | (pos, remainingPoints) # rest \<Rightarrow>
          (case rangeNeighbors m mt movementPts pos
                  (getNeighbors pos (width m) (height m)) (reachableTiles, rest) of
             Inl e \<Rightarrow> Some (Inl e)
           | Inr (reachableTiles1, queue1) \<Rightarrow>
               findMovementRange_loop m mt movementPts queue1 reachableTiles1))"

declare findMovementRange_loop.simps [code]

definition findMovementRange ::
  "GameMap \<Rightarrow> GridPosition \<Rightarrow> MovementType \<Rightarrow> int
     \<Rightarrow> (error + (GridPosition \<rightharpoonup> int)) option" where
  "findMovementRange m position mt movementPts =
     findMovementRange_loop m mt movementPts [(position, movementPts)]
       (Map.empty(position \<mapsto> 0))"

section \<open>The map as a weighted graph\<close>

text \<open>
  The notions the pathfinding statements are about. A map is well formed when its tile
  array has \<open>height\<close> rows of \<open>width\<close> tiles, as \<open>generateMap\<close> builds it. A position
  can be entered when it has a tile that the movement type may pass; entering it costs 1
  in the air and the tile's movement cost on the ground. \<open>route m mt s k p\<close> says that
  some sequence of steps between adjacent positions leads from \<open>s\<close> to \<open>p\<close> at total
  cost \<open>k\<close>.
\<close>

definition inGrid :: "GameMap \<Rightarrow> GridPosition \<Rightarrow> bool" where
  "inGrid m p = (0 \<le> pos_x p \<and> pos_x p < width m \<and> 0 \<le> pos_y p \<and> pos_y p < height m)"

definition wellFormed :: "GameMap \<Rightarrow> bool" where
  "wellFormed m =
     (int (length (tiles m)) = height m \<and> (\<forall>row \<in> set (tiles m). int (length row) = width m))"

definition costsAtLeastOne :: "GameMap \<Rightarrow> bool" where
  "costsAtLeastOne m =
     (\<forall>row \<in> set (tiles m). \<forall>t \<in> set row.
        isWalkable (terrain t) \<longrightarrow> 1 \<le> movementCost (terrain t))"

definition enterable :: "GameMap \<Rightarrow> MovementType \<Rightarrow> GridPosition \<Rightarrow> bool" where
  "enterable m mt p =
     (case tileAt m p of
        Inl e \<Rightarrow> False
      | Inr t \<Rightarrow> \<not> ((mt = GROUND \<and> \<not> isWalkable (terrain t))
                    \<or> (mt = AIR \<and> \<not> isFlyable (terrain t))))"

definition stepCost :: "GameMap \<Rightarrow> MovementType \<Rightarrow> GridPosition \<Rightarrow> int" where
  "stepCost m mt p =
     (if mt = AIR then 1
      else case tileAt m p of Inl e \<Rightarrow> 0 | Inr t \<Rightarrow> movementCost (terrain t))"

inductive route :: "GameMap \<Rightarrow> MovementType \<Rightarrow> GridPosition \<Rightarrow> int \<Rightarrow> GridPosition \<Rightarrow> bool"
  for m mt s where
  route_start: "route m mt s 0 s"
| route_step: "route m mt s k u \<Longrightarrow> v \<in> set (getNeighbors u (width m) (height m))
      \<Longrightarrow> enterable m mt v \<Longrightarrow> route m mt s (k + stepCost m mt v) v"

text \<open>
  Invariants of the two searches. One round of each neighbour loop is \<open>relaxOpen\<close>
  respectively \<open>relaxRange\<close>; each neighbour loop is shown below to be a fold of
  its round.
\<close>

definition goodNode ::
  "GameMap \<Rightarrow> MovementType \<Rightarrow> GridPosition \<Rightarrow> GridPosition \<Rightarrow> PathNode \<Rightarrow> bool" where
  "goodNode m mt s goal n =
     (route m mt s (gCost n) (node_position n)
      \<and> hCost n = manhattanDistance (node_position n) goal
      \<and> fCost n = gCost n + hCost n)"

definition relaxOpen ::
  "GameMap \<Rightarrow> MovementType \<Rightarrow> GridPosition \<Rightarrow> (GridPosition \<rightharpoonup> PathNode) \<Rightarrow> PathNode
     \<Rightarrow> PathNode list \<Rightarrow> GridPosition \<Rightarrow> PathNode list" where
  "relaxOpen m mt goal C cur openSet v =
     (if \<not> enterable m mt v \<or> C v \<noteq> None then openSet
      else case find (\<lambda>node. pos_x (node_position node) = pos_x v
                               \<and> pos_y (node_position node) = pos_y v) openSet of
             None \<Rightarrow> openSet @ [PathNode v (gCost cur + stepCost m mt v)
                                  (manhattanDistance v goal)
                                  (gCost cur + stepCost m mt v + manhattanDistance v goal)
                                  (Some cur)]
           | Some ex \<Rightarrow>
               if gCost cur + stepCost m mt v < gCost ex
               then updateExisting v (gCost cur + stepCost m mt v) cur openSet
               else openSet)"

definition openInv ::
  "GameMap \<Rightarrow> MovementType \<Rightarrow> GridPosition \<Rightarrow> GridPosition \<Rightarrow> (GridPosition \<rightharpoonup> PathNode)
     \<Rightarrow> PathNode list \<Rightarrow> bool" where
  "openInv m mt s goal C openSet =
     ((\<forall>n \<in> set openSet. goodNode m mt s goal n)
      \<and> distinct (map node_position openSet)
      \<and> (\<forall>n \<in> set openSet. C (node_position n) = None))"

definition openLe :: "PathNode list \<Rightarrow> PathNode list \<Rightarrow> bool" where
  "openLe openSet openSet' =
     (\<forall>n \<in> set openSet. \<exists>n' \<in> set openSet'.
        node_position n' = node_position n \<and> gCost n' \<le> gCost n)"

definition astarInv ::
  "GameMap \<Rightarrow> MovementType \<Rightarrow> GridPosition \<Rightarrow> GridPosition \<Rightarrow> PathNode list
     \<Rightarrow> (GridPosition \<rightharpoonup> PathNode) \<Rightarrow> bool" where
  "astarInv m mt s goal openSet C =
     (openInv m mt s goal C openSet
      \<and> (\<forall>p n. C p = Some n \<longrightarrow> (\<forall>k. route m mt s k p \<longrightarrow> gCost n \<le> k))
      \<and> (\<forall>p n v. C p = Some n \<longrightarrow> v \<in> set (getNeighbors p (width m) (height m))
            \<longrightarrow> enterable m mt v
            \<longrightarrow> C v \<noteq> None
                \<or> (\<exists>n' \<in> set openSet. node_position n' = v
                       \<and> gCost n' \<le> gCost n + stepCost m mt v))
      \<and> (C s \<noteq> None \<or> (\<exists>n \<in> set openSet. node_position n = s \<and> gCost n \<le> 0))
      \<and> C goal = None
      \<and> (\<forall>p. C p \<noteq> None \<longrightarrow> p = s \<or> inGrid m p))"

definition relaxRange ::
  "GameMap \<Rightarrow> MovementType \<Rightarrow> int \<Rightarrow> GridPosition
     \<Rightarrow> (GridPosition \<rightharpoonup> int) \<times> (GridPosition \<times> int) list \<Rightarrow> GridPosition
     \<Rightarrow> (GridPosition \<rightharpoonup> int) \<times> (GridPosition \<times> int) list" where
  "relaxRange m mt B u st v =
     (if \<not> enterable m mt v then st
      else case fst st u of
             None \<Rightarrow> st
           | Some cu \<Rightarrow>
               if (case fst st v of None \<Rightarrow> True | Some known \<Rightarrow> cu + stepCost m mt v < known)
                  \<and> cu + stepCost m mt v \<le> B
               then ((fst st)(v \<mapsto> cu + stepCost m mt v),
                     if B - (cu + stepCost m mt v) > 0
                     then snd st @ [(v, B - (cu + stepCost m mt v))] else snd st)
               else st)"

definition rangeInv ::
  "GameMap \<Rightarrow> MovementType \<Rightarrow> GridPosition \<Rightarrow> int \<Rightarrow> (GridPosition \<rightharpoonup> int) \<Rightarrow> bool" where
  "rangeInv m mt s B R =
     ((\<forall>p c. R p = Some c \<longrightarrow> route m mt s c p \<and> c \<le> max B 0) \<and> R s = Some 0)"

definition rangeLe :: "(GridPosition \<rightharpoonup> int) \<Rightarrow> (GridPosition \<rightharpoonup> int) \<Rightarrow> bool" where
  "rangeLe R R' = (\<forall>p c. R p = Some c \<longrightarrow> (\<exists>c'. R' p = Some c' \<and> c' \<le> c))"

definition rangeClosed ::
  "GameMap \<Rightarrow> MovementType \<Rightarrow> int \<Rightarrow> (GridPosition \<rightharpoonup> int) \<Rightarrow> (GridPosition \<times> int) list
     \<Rightarrow> bool" where
  "rangeClosed m mt B R Q =
     (\<forall>u c. R u = Some c \<longrightarrow> c < B \<longrightarrow> u \<notin> fst ` set Q \<longrightarrow>
        (\<forall>v \<in> set (getNeighbors u (width m) (height m)). enterable m mt v \<longrightarrow>
           (\<exists>c'. R v = Some c' \<and> c' \<le> c + stepCost m mt v) \<or> c + stepCost m mt v > B))"

definition rangePot :: "GameMap \<Rightarrow> GridPosition \<Rightarrow> int \<Rightarrow> (GridPosition \<rightharpoonup> int) \<Rightarrow> nat" where
  "rangePot m s B R =
     (\<Sum>p \<in> {p. p = s \<or> inGrid m p}. nat (case R p of None \<Rightarrow> max B 0 + 1 | Some c \<Rightarrow> c))"

definition rangeStepRel ::
  "GameMap \<Rightarrow> MovementType \<Rightarrow> GridPosition \<Rightarrow> int \<Rightarrow> GridPosition \<Rightarrow> int
     \<Rightarrow> (GridPosition \<rightharpoonup> int) \<times> (GridPosition \<times> int) list
     \<Rightarrow> (GridPosition \<rightharpoonup> int) \<times> (GridPosition \<times> int) list \<Rightarrow> bool" where
  "rangeStepRel m mt s B u cu st st' =
     (rangeInv m mt s B (fst st')
      \<and> rangeLe (fst st) (fst st')
      \<and> fst st' u = Some cu
      \<and> set (snd st) \<subseteq> set (snd st')
      \<and> (\<forall>p c. fst st' p = Some c \<longrightarrow> fst st p \<noteq> Some c \<longrightarrow> c < B
             \<longrightarrow> p \<in> fst ` set (snd st'))
      \<and> rangePot m s B (fst st') + length (snd st') \<le> rangePot m s B (fst st) + length (snd st)
      \<and> ((\<forall>q \<in> set (snd st). fst st (fst q) \<noteq> None)
           \<longrightarrow> (\<forall>q \<in> set (snd st'). fst st' (fst q) \<noteq> None)))"

section \<open>Diplomacy: relation scores stay in range\<close>

lemma setRelation_bounded:
  "relations_bounded ds \<Longrightarrow> relations_bounded (setRelation ds a b v)"
  by (auto simp: relations_bounded_def setRelation_def Let_def)

lemma relations_modifyRelation:
  "relations (fst (modifyRelation ds a b delta ty descr))
     = relations (setRelation ds a b (max (-100) (min 100 (getRelation ds a b + delta))))"
  by (simp add: modifyRelation_def Let_def)

lemma modifyRelation_bounded:
  "relations_bounded ds \<Longrightarrow> relations_bounded (fst (modifyRelation ds a b delta ty descr))"
  using setRelation_bounded [of ds a b "max (-100) (min 100 (getRelation ds a b + delta))"]
  unfolding relations_bounded_def relations_modifyRelation by blast

lemma run_call_bounded:
  "relations_bounded ds \<Longrightarrow> relations_bounded (run_call ds c)"
  by (cases c) (simp_all add: setRelation_bounded modifyRelation_bounded)

lemma run_calls_bounded:
  "relations_bounded ds \<Longrightarrow> relations_bounded (run_calls ds cs)"
  by (induction cs arbitrary: ds) (simp_all add: run_call_bounded)

lemma DiplomacySystem_new_bounded: "relations_bounded DiplomacySystem_new"
  unfolding DiplomacySystem_new_def
  by (intro setRelation_bounded) (simp add: relations_bounded_def)

lemma getRelationKey_PLAYER_ENEMY: "getRelationKey PLAYER ENEMY = ''enemy_player''"
  by (simp add: getRelationKey_def)

text \<open>
  C5. Starting from a freshly constructed DiplomacySystem, after any sequence of
  \<open>setRelation\<close> and \<open>modifyRelation\<close> calls with arbitrary values and deltas, every
  score stored in the relation table lies in the interval from -100 to 100.
\<close>

theorem relation_scores_stay_clamped:
  "relations (run_calls DiplomacySystem_new calls) k = Some v \<Longrightarrow> -100 \<le> v \<and> v \<le> 100"
  using run_calls_bounded [OF DiplomacySystem_new_bounded, of calls]
  by (simp add: relations_bounded_def)

theorem relation_scores_stay_clamped_witness:
  "relations (run_calls DiplomacySystem_new
       [ModifyRelation PLAYER ENEMY (-50) ''ATTACK_BASE'' ''raid'',
        SetRelation ENEMY NEUTRAL 500]) ''enemy_player'' = Some (-100)
   \<and> -100 \<le> (-100::real) \<and> (-100::real) \<le> 100"
proof -
  have run: "relations (run_calls DiplomacySystem_new
       [ModifyRelation PLAYER ENEMY (-50) ''ATTACK_BASE'' ''raid'',
        SetRelation ENEMY NEUTRAL 500]) ''enemy_player'' = Some (-100)"
    by (simp add: DiplomacySystem_new_def modifyRelation_def setRelation_def getRelation_def
        getRelationKey_def Let_def)
  show ?thesis
    using run relation_scores_stay_clamped [OF run] by simp
qed

section \<open>Diplomacy: relationship tiers at the boundary scores\<close>

lemma getRelation_setRelation:
  "a \<noteq> b \<Longrightarrow> getRelation (setRelation ds a b v) a b = max (-100) (min 100 v)"
  by (simp add: getRelation_def setRelation_def Let_def)

text \<open>
  C6. For two different factions whose relation has just been set to the given score,
  \<open>getRelationshipStatus\<close> reports: -60 war, -59 hostile, -20 hostile, 19 neutral,
  20 friendly, 59 friendly, 60 allied.
\<close>

theorem relationship_tier_boundaries:
  assumes "a \<noteq> b"
  shows "getRelationshipStatus (setRelation ds a b (-60)) a b = WAR
       \<and> getRelationshipStatus (setRelation ds a b (-59)) a b = HOSTILE
       \<and> getRelationshipStatus (setRelation ds a b (-20)) a b = HOSTILE
       \<and> getRelationshipStatus (setRelation ds a b 19) a b = NEUTRAL_STATUS
       \<and> getRelationshipStatus (setRelation ds a b 20) a b = FRIENDLY
       \<and> getRelationshipStatus (setRelation ds a b 59) a b = FRIENDLY
       \<and> getRelationshipStatus (setRelation ds a b 60) a b = ALLIED"
  using assms by (simp add: getRelationshipStatus_def getRelation_setRelation)

theorem relationship_tier_boundaries_witness:
  "PLAYER \<noteq> ENEMY
   \<and> getRelationshipStatus (setRelation DiplomacySystem_new PLAYER ENEMY (-60)) PLAYER ENEMY = WAR
   \<and> getRelationshipStatus (setRelation DiplomacySystem_new PLAYER ENEMY (-59)) PLAYER ENEMY = HOSTILE
   \<and> getRelationshipStatus (setRelation DiplomacySystem_new PLAYER ENEMY (-20)) PLAYER ENEMY = HOSTILE
   \<and> getRelationshipStatus (setRelation DiplomacySystem_new PLAYER ENEMY 19) PLAYER ENEMY = NEUTRAL_STATUS
   \<and> getRelationshipStatus (setRelation DiplomacySystem_new PLAYER ENEMY 20) PLAYER ENEMY = FRIENDLY
   \<and> getRelationshipStatus (setRelation DiplomacySystem_new PLAYER ENEMY 59) PLAYER ENEMY = FRIENDLY
   \<and> getRelationshipStatus (setRelation DiplomacySystem_new PLAYER ENEMY 60) PLAYER ENEMY = ALLIED"
proof -
  have ne: "PLAYER \<noteq> ENEMY" by simp
  show ?thesis
    using ne relationship_tier_boundaries [OF ne, of DiplomacySystem_new] by simp
qed

section \<open>Sample inputs evaluated\<close>

lemma sampleMap_tiles:
  "tiles sampleMap =
    [[\<lparr>tile_position = \<lparr>pos_x = 0, pos_y = 0\<rparr>, terrain = TerrainTiles PLAINS\<rparr>,
      \<lparr>tile_position = \<lparr>pos_x = 1, pos_y = 0\<rparr>, terrain = TerrainTiles FOREST\<rparr>,
      \<lparr>tile_position = \<lparr>pos_x = 2, pos_y = 0\<rparr>, terrain = TerrainTiles PLAINS\<rparr>,
      \<lparr>tile_position = \<lparr>pos_x = 3, pos_y = 0\<rparr>, terrain = TerrainTiles PLAINS\<rparr>],
     [\<lparr>tile_position = \<lparr>pos_x = 0, pos_y = 1\<rparr>, terrain = TerrainTiles PLAINS\<rparr>,
      \<lparr>tile_position = \<lparr>pos_x = 1, pos_y = 1\<rparr>, terrain = TerrainTiles MOUNTAIN\<rparr>,
      \<lparr>tile_position = \<lparr>pos_x = 2, pos_y = 1\<rparr>, terrain = TerrainTiles WATER\<rparr>,
      \<lparr>tile_position = \<lparr>pos_x = 3, pos_y = 1\<rparr>, terrain = TerrainTiles PLAINS\<rparr>],
     [\<lparr>tile_position = \<lparr>pos_x = 0, pos_y = 2\<rparr>, terrain = TerrainTiles PLAINS\<rparr>,
      \<lparr>tile_position = \<lparr>pos_x = 1, pos_y = 2\<rparr>, terrain = TerrainTiles PLAINS\<rparr>,
      \<lparr>tile_position = \<lparr>pos_x = 2, pos_y = 2\<rparr>, terrain = TerrainTiles FOREST\<rparr>,
      \<lparr>tile_position = \<lparr>pos_x = 3, pos_y = 2\<rparr>, terrain = TerrainTiles PLAINS\<rparr>],
     [\<lparr>tile_position = \<lparr>pos_x = 0, pos_y = 3\<rparr>, terrain = TerrainTiles WATER\<rparr>,
      \<lparr>tile_position = \<lparr>pos_x = 1, pos_y = 3\<rparr>, terrain = TerrainTiles PLAINS\<rparr>,
      \<lparr>tile_position = \<lparr>pos_x = 2, pos_y = 3\<rparr>, terrain = TerrainTiles PLAINS\<rparr>,
      \<lparr>tile_position = \<lparr>pos_x = 3, pos_y = 3\<rparr>, terrain = TerrainTiles PLAINS\<rparr>]]"
  by (simp add: sampleMap_def mapOfTerrain_def enumerate_eq_zip upt_rec)

lemma sampleMap_dims: "width sampleMap = 4" "height sampleMap = 4"
  by (simp_all add: sampleMap_def mapOfTerrain_def)

lemma tileAt_sample_00:
  "tileAt sampleMap \<lparr>pos_x = 0, pos_y = 0\<rparr>
     = Inr \<lparr>tile_position = \<lparr>pos_x = 0, pos_y = 0\<rparr>, terrain = TerrainTiles PLAINS\<rparr>"
  by (simp add: tileAt_def sampleMap_tiles)

lemma tileAt_sample_10:
  "tileAt sampleMap \<lparr>pos_x = 1, pos_y = 0\<rparr>
     = Inr \<lparr>tile_position = \<lparr>pos_x = 1, pos_y = 0\<rparr>, terrain = TerrainTiles FOREST\<rparr>"
  by (simp add: tileAt_def sampleMap_tiles)

lemma sample_bases:
  "bases (SupplySystem_new sampleMap) =
    [\<lparr>base_id = ''player-hq'', base_position = \<lparr>pos_x = 2, pos_y = 2\<rparr>,
       base_faction = PLAYER, base_name = ''Player HQ'', fuelProduction = 20,
       ammunitionProduction = 15, supplyRange = 8, capturable = False\<rparr>,
     \<lparr>base_id = ''enemy-hq'', base_position = \<lparr>pos_x = 1, pos_y = 1\<rparr>,
       base_faction = ENEMY, base_name = ''Enemy HQ'', fuelProduction = 20,
       ammunitionProduction = 15, supplyRange = 8, capturable = False\<rparr>,
     \<lparr>base_id = ''outpost-1'', base_position = \<lparr>pos_x = 2, pos_y = 2\<rparr>,
       base_faction = NEUTRAL, base_name = ''Central Outpost'', fuelProduction = 15,
       ammunitionProduction = 10, supplyRange = 6, capturable = True\<rparr>,
     \<lparr>base_id = ''outpost-2'', base_position = \<lparr>pos_x = 1, pos_y = 2\<rparr>,
       base_faction = NEUTRAL, base_name = ''West Outpost'', fuelProduction = 10,
       ammunitionProduction = 5, supplyRange = 5, capturable = True\<rparr>,
     \<lparr>base_id = ''outpost-3'', base_position = \<lparr>pos_x = 2, pos_y = 1\<rparr>,
       base_faction = NEUTRAL, base_name = ''East Outpost'', fuelProduction = 5,
       ammunitionProduction = 10, supplyRange = 5, capturable = True\<rparr>]"
  by (simp add: SupplySystem_new_def addBase_def sampleMap_dims)

lemma infantry_fields:
  "faction infantry = PLAYER" "health infantry = 100" "maxHealth infantry = 100"
  "attackRange infantry = 2" "detectionRange infantry = 5"
  "aggressiveness infantry = 0.5" "sensorWeight infantry = 0.7"
  "fuelCurrent infantry = 50" "fuelMax infantry = 50"
  "ammunitionCurrent infantry = 30" "ammunitionMax infantry = 30"
  "ammunitionConsumptionRate infantry = 5"
  by (simp_all add: infantry_def)

lemma enemy_infantry_fields:
  "faction enemy_infantry = ENEMY" "health enemy_infantry = 90"
  by (simp_all add: enemy_infantry_def)


section \<open>Combat: damage floor and kills\<close>

lemma resolveDamage_value:
  "case co_value (resolveDamage cs store a ap d dp c) of
     Inl e \<Rightarrow> (\<exists>e'. tileAt (cs_map cs) ap = Inl e') \<or> (\<exists>e'. tileAt (cs_map cs) dp = Inl e')
   | Inr r \<Rightarrow> 1 \<le> damage r
        \<and> (health (store d) = 1 \<longrightarrow> isKill r \<and> defenderRemainingHealth r = 0)
        \<and> ammunitionConsumed r = c"
  by (auto simp: resolveDamage_def Let_def split: sum.splits option.splits prod.splits)

lemma resolveDamage_store: "co_store (resolveDamage cs store a ap d dp c) = store"
  by (auto simp: resolveDamage_def Let_def split: sum.splits option.splits prod.splits)

lemma resolveDamage_consumed:
  "co_value (resolveDamage cs store a ap d dp c) = Inr res \<Longrightarrow> ammunitionConsumed res = c"
  by (auto simp: resolveDamage_def Let_def split: sum.splits option.splits prod.splits if_splits)

text \<open>
  C2. For every combat system, unit store, attacker, defender and pair of positions,
  \<open>resolveCombat\<close> either returns a result whose damage is at least 1 and which, when the
  defender has exactly 1 health, reports a kill with remaining health 0; or it throws, and
  that only happens when one of the two positions has no tile on the map.
\<close>

theorem resolveCombat_damage_floor_and_kill:
  "case co_value (resolveCombat cs store a ap d dp) of
     Inl e \<Rightarrow> (\<exists>e'. tileAt (cs_map cs) ap = Inl e') \<or> (\<exists>e'. tileAt (cs_map cs) dp = Inl e')
   | Inr r \<Rightarrow> 1 \<le> damage r
        \<and> (health (store d) = 1 \<longrightarrow> isKill r \<and> defenderRemainingHealth r = 0)"
proof (cases "supplySystem cs")
  case None
  then show ?thesis
    using resolveDamage_value [where cs=cs and store=store and a=a and ap=ap and d=d and dp=dp and c=0]
    by (simp add: resolveCombat_def split: sum.splits)
next
  case (Some ss)
  show ?thesis
  proof (cases "canAttack (canUnitAttack (store a))")
    case False
    then show ?thesis using Some by (simp add: resolveCombat_def Let_def)
  next
    case True
    let ?c = "ammunitionConsumptionRate (store a)"
    let ?s1 = "store(a := (store a)\<lparr>ammunitionCurrent := ammunitionCurrent (store a) - ?c\<rparr>)"
    have h: "health (?s1 d) = health (store d)" by simp
    show ?thesis
      using resolveDamage_value [where cs=cs and store="?s1" and a=a and ap=ap and d=d and dp=dp and c="?c"] True Some
      unfolding h
      by (simp add: resolveCombat_def Let_def split: sum.splits)
  qed
qed

theorem resolveCombat_damage_floor_and_kill_witness:
  "case co_value (resolveCombat
       \<lparr>cs_map = sampleMap, diplomacySystem = Some DiplomacySystem_new,
        supplySystem = Some (SupplySystem_new sampleMap)\<rparr>
       ((\<lambda>r. infantry)(1 := enemy_infantry\<lparr>health := 1\<rparr>))
       0 \<lparr>pos_x = 0, pos_y = 0\<rparr> 1 \<lparr>pos_x = 1, pos_y = 0\<rparr>) of
     Inl e \<Rightarrow> False
   | Inr r \<Rightarrow> 1 \<le> damage r
        \<and> health (((\<lambda>r. infantry)(1 := enemy_infantry\<lparr>health := 1\<rparr>)) 1) = 1
        \<and> isKill r \<and> defenderRemainingHealth r = 0"
  using resolveCombat_damage_floor_and_kill
     [where cs = "\<lparr>cs_map = sampleMap, diplomacySystem = Some DiplomacySystem_new,
        supplySystem = Some (SupplySystem_new sampleMap)\<rparr>"
      and store = "(\<lambda>r. infantry)(1 := enemy_infantry\<lparr>health := 1\<rparr>)"
      and a = 0 and ap = "\<lparr>pos_x = 0, pos_y = 0\<rparr>" and d = 1
      and dp = "\<lparr>pos_x = 1, pos_y = 0\<rparr>"]
  by (simp add: tileAt_sample_00 tileAt_sample_10 split: sum.splits)


section \<open>Combat: attacking without ammunition\<close>

text \<open>
  C3. With a supply system attached and the attacker's current ammunition below its
  per-attack consumption rate, \<open>resolveCombat\<close> returns (and does not throw) the fixed
  outcome: damage 1, no ammunition consumed, remaining health \<open>max 0 (health - 1)\<close>, a
  kill exactly when the defender's health is at most 1, no diplomatic consequence, and
  no change to the units or to the systems, whatever the positions are.
\<close>

theorem insufficient_ammo_minimum_damage:
  assumes "supplySystem cs = Some ss"
    and "ammunitionCurrent (store a) < ammunitionConsumptionRate (store a)"
  shows "resolveCombat cs store a ap d dp =
     \<lparr>co_value = Inr \<lparr>cr_attacker = a, cr_defender = d, damage = 1,
                       isKill = (health (store d) \<le> 1),
                       defenderRemainingHealth = max 0 (health (store d) - 1),
                       ammunitionConsumed = 0, diplomaticConsequence = None\<rparr>,
      co_store = store, co_system = cs, co_notified = []\<rparr>"
  using assms
  by (simp add: resolveCombat_def canUnitAttack_def calculateCombatConsumption_def Let_def)

theorem insufficient_ammo_minimum_damage_witness:
  "supplySystem \<lparr>cs_map = sampleMap, diplomacySystem = Some DiplomacySystem_new,
        supplySystem = Some (SupplySystem_new sampleMap)\<rparr> = Some (SupplySystem_new sampleMap)
   \<and> ammunitionCurrent (((\<lambda>r. enemy_infantry)(0 := infantry\<lparr>ammunitionCurrent := 4\<rparr>)) 0)
       < ammunitionConsumptionRate (((\<lambda>r. enemy_infantry)(0 := infantry\<lparr>ammunitionCurrent := 4\<rparr>)) 0)
   \<and> resolveCombat
       \<lparr>cs_map = sampleMap, diplomacySystem = Some DiplomacySystem_new,
        supplySystem = Some (SupplySystem_new sampleMap)\<rparr>
       ((\<lambda>r. enemy_infantry)(0 := infantry\<lparr>ammunitionCurrent := 4\<rparr>))
       0 \<lparr>pos_x = 0, pos_y = 0\<rparr> 1 \<lparr>pos_x = 1, pos_y = 0\<rparr>
     = \<lparr>co_value = Inr \<lparr>cr_attacker = 0, cr_defender = 1, damage = 1, isKill = False,
                       defenderRemainingHealth = 89, ammunitionConsumed = 0,
                       diplomaticConsequence = None\<rparr>,
        co_store = (\<lambda>r. enemy_infantry)(0 := infantry\<lparr>ammunitionCurrent := 4\<rparr>),
        co_system = \<lparr>cs_map = sampleMap, diplomacySystem = Some DiplomacySystem_new,
                     supplySystem = Some (SupplySystem_new sampleMap)\<rparr>,
        co_notified = []\<rparr>"
proof -
  let ?cs = "\<lparr>cs_map = sampleMap, diplomacySystem = Some DiplomacySystem_new,
        supplySystem = Some (SupplySystem_new sampleMap)\<rparr>"
  let ?st = "(\<lambda>r. enemy_infantry)(0 := infantry\<lparr>ammunitionCurrent := 4\<rparr>)"
  have h1: "supplySystem ?cs = Some (SupplySystem_new sampleMap)" by simp
  have h2: "ammunitionCurrent (?st 0) < ammunitionConsumptionRate (?st 0)"
    by (simp add: infantry_def)
  show ?thesis
    using h1 h2 insufficient_ammo_minimum_damage [where store = "?st" and a = 0 and d = 1
        and ap = "\<lparr>pos_x = 0, pos_y = 0\<rparr>" and dp = "\<lparr>pos_x = 1, pos_y = 0\<rparr>", OF h1 h2]
    by (simp add: enemy_infantry_def)
qed


section \<open>Combat: what a call changes in the unit store\<close>

lemma resolveCombat_others:
  "r \<noteq> a \<Longrightarrow> co_store (resolveCombat cs store a ap d dp) r = store r"
  by (simp add: resolveCombat_def Let_def resolveDamage_store split: option.splits)

lemma resolveCombat_attacker:
  "\<exists>c. co_store (resolveCombat cs store a ap d dp) a
             = (store a)\<lparr>ammunitionCurrent := ammunitionCurrent (store a) - c\<rparr>
          \<and> (\<forall>res. co_value (resolveCombat cs store a ap d dp) = Inr res
                 \<longrightarrow> ammunitionConsumed res = c)"
proof (cases "supplySystem cs")
  case None
  have "co_store (resolveCombat cs store a ap d dp) a
          = (store a)\<lparr>ammunitionCurrent := ammunitionCurrent (store a) - 0\<rparr>
        \<and> (\<forall>res. co_value (resolveCombat cs store a ap d dp) = Inr res
               \<longrightarrow> ammunitionConsumed res = 0)"
    using None by (simp add: resolveCombat_def resolveDamage_store resolveDamage_consumed)
  then show ?thesis by (rule exI)
next
  case (Some ss)
  show ?thesis
  proof (cases "canAttack (canUnitAttack (store a))")
    case False
    have "co_store (resolveCombat cs store a ap d dp) a
          = (store a)\<lparr>ammunitionCurrent := ammunitionCurrent (store a) - 0\<rparr>
        \<and> (\<forall>res. co_value (resolveCombat cs store a ap d dp) = Inr res
               \<longrightarrow> ammunitionConsumed res = 0)"
      using Some False by (auto simp: resolveCombat_def Let_def)
    then show ?thesis by (rule exI)
  next
    case True
    let ?c = "ammunitionConsumptionRate (store a)"
    have "co_store (resolveCombat cs store a ap d dp) a
          = (store a)\<lparr>ammunitionCurrent := ammunitionCurrent (store a) - ?c\<rparr>
        \<and> (\<forall>res. co_value (resolveCombat cs store a ap d dp) = Inr res
               \<longrightarrow> ammunitionConsumed res = ?c)"
      using Some True
      by (simp add: resolveCombat_def Let_def resolveDamage_store resolveDamage_consumed)
    then show ?thesis by (rule exI)
  qed
qed

text \<open>
  C10. After \<open>resolveCombat\<close>, whether it returned or threw, every unit object other than
  the attacker is identical to what it was before; in particular the defender, when it is
  a different object from the attacker, keeps its health and all other fields. The
  attacker object differs from its old value at most in \<open>ammunitionCurrent\<close>, lowered by
  an amount that equals the \<open>ammunitionConsumed\<close> field of the result when a result is
  returned.
\<close>

theorem resolveCombat_frame:
  "(\<forall>r. r \<noteq> a \<longrightarrow> co_store (resolveCombat cs store a ap d dp) r = store r)
   \<and> (a \<noteq> d \<longrightarrow> co_store (resolveCombat cs store a ap d dp) d = store d)
   \<and> (\<exists>c. co_store (resolveCombat cs store a ap d dp) a
             = (store a)\<lparr>ammunitionCurrent := ammunitionCurrent (store a) - c\<rparr>
          \<and> (\<forall>res. co_value (resolveCombat cs store a ap d dp) = Inr res
                 \<longrightarrow> ammunitionConsumed res = c))"
  using resolveCombat_others [of _ a cs store ap d dp]
    resolveCombat_attacker [of cs store a ap d dp]
  by (intro conjI allI impI) simp_all

theorem resolveCombat_frame_witness:
  "(1::nat) \<noteq> 0 \<and> (0::nat) \<noteq> 1
   \<and> co_store (resolveCombat
        \<lparr>cs_map = sampleMap, diplomacySystem = Some DiplomacySystem_new,
         supplySystem = Some (SupplySystem_new sampleMap)\<rparr>
        ((\<lambda>r. infantry)(1 := enemy_infantry))
        0 \<lparr>pos_x = 0, pos_y = 0\<rparr> 1 \<lparr>pos_x = 1, pos_y = 0\<rparr>) 1 = enemy_infantry
   \<and> ammunitionCurrent (co_store (resolveCombat
        \<lparr>cs_map = sampleMap, diplomacySystem = Some DiplomacySystem_new,
         supplySystem = Some (SupplySystem_new sampleMap)\<rparr>
        ((\<lambda>r. infantry)(1 := enemy_infantry))
        0 \<lparr>pos_x = 0, pos_y = 0\<rparr> 1 \<lparr>pos_x = 1, pos_y = 0\<rparr>) 0) = 25
   \<and> (case co_value (resolveCombat
        \<lparr>cs_map = sampleMap, diplomacySystem = Some DiplomacySystem_new,
         supplySystem = Some (SupplySystem_new sampleMap)\<rparr>
        ((\<lambda>r. infantry)(1 := enemy_infantry))
        0 \<lparr>pos_x = 0, pos_y = 0\<rparr> 1 \<lparr>pos_x = 1, pos_y = 0\<rparr>) of
         Inl e \<Rightarrow> False
       | Inr res \<Rightarrow> ammunitionConsumed res = 5)"
proof -
  let ?cs = "\<lparr>cs_map = sampleMap, diplomacySystem = Some DiplomacySystem_new,
         supplySystem = Some (SupplySystem_new sampleMap)\<rparr>"
  let ?st = "(\<lambda>r. infantry)(1 := enemy_infantry)"
  let ?st1 = "?st(0 := infantry\<lparr>ammunitionCurrent :=
           ammunitionCurrent infantry - ammunitionConsumptionRate infantry\<rparr>)"
  let ?out = "resolveCombat ?cs ?st 0 \<lparr>pos_x = 0, pos_y = 0\<rparr> 1 \<lparr>pos_x = 1, pos_y = 0\<rparr>"
  have can: "canAttack (canUnitAttack infantry)"
    by (simp add: canUnitAttack_def calculateCombatConsumption_def infantry_fields)
  have out: "?out = resolveDamage ?cs ?st1 0 \<lparr>pos_x = 0, pos_y = 0\<rparr> 1 \<lparr>pos_x = 1, pos_y = 0\<rparr>
                 (ammunitionConsumptionRate infantry)"
    using can by (simp add: resolveCombat_def Let_def)
  have "co_store ?out 0 = infantry\<lparr>ammunitionCurrent :=
           ammunitionCurrent infantry - ammunitionConsumptionRate infantry\<rparr>"
    unfolding out by (simp add: resolveDamage_store)
  then have att: "ammunitionCurrent (co_store ?out 0) = 25"
    by (simp add: infantry_fields)
  have val: "case co_value ?out of Inl e \<Rightarrow> False | Inr res \<Rightarrow> ammunitionConsumed res = 5"
    using resolveDamage_value [where cs = "?cs" and store = "?st1" and a = 0 and d = 1
        and ap = "\<lparr>pos_x = 0, pos_y = 0\<rparr>" and dp = "\<lparr>pos_x = 1, pos_y = 0\<rparr>"
        and c = "ammunitionConsumptionRate infantry"]
    unfolding out
    by (simp add: tileAt_sample_00 tileAt_sample_10 infantry_fields split: sum.splits)
  have "(0::nat) \<noteq> 1 \<longrightarrow> co_store ?out 1 = ?st 1"
    using resolveCombat_frame [where cs = "?cs" and store = "?st" and a = 0 and d = 1
        and ap = "\<lparr>pos_x = 0, pos_y = 0\<rparr>" and dp = "\<lparr>pos_x = 1, pos_y = 0\<rparr>",
        THEN conjunct2, THEN conjunct1] by simp
  then show ?thesis using att val by simp
qed

section \<open>Supply: resupply\<close>

lemma supplyScan_found:
  "(m \<noteq> None \<longrightarrow> n \<noteq> None) \<Longrightarrow>
   n \<noteq> None \<or> (\<exists>b0 \<in> set bs. real_of_int (manhattanDistance p (base_position b0)) \<le> supplyRange b0) \<Longrightarrow>
   fst (supplyScan p bs (n, m)) \<noteq> None"
proof (induction bs arbitrary: n m)
  case Nil
  then show ?case by simp
next
  case (Cons c bs)
  show ?case
  proof (cases "real_of_int (manhattanDistance p (base_position c)) \<le> supplyRange c
            \<and> (case m of None \<Rightarrow> True | Some k \<Rightarrow> manhattanDistance p (base_position c) < k)")
    case True
    have "fst (supplyScan p bs (Some c, Some (manhattanDistance p (base_position c)))) \<noteq> None"
      by (rule Cons.IH) simp_all
    with True show ?thesis by (simp add: Let_def)
  next
    case False
    have "n \<noteq> None \<or> (\<exists>b0 \<in> set bs. real_of_int (manhattanDistance p (base_position b0)) \<le> supplyRange b0)"
      using Cons.prems False by (cases m) auto
    note ih = Cons.IH [OF Cons.prems(1) this]
    have "supplyScan p (c # bs) (n, m) = supplyScan p bs (n, m)"
      using False by (auto simp: Let_def)
    with ih show ?thesis by simp
  qed
qed

lemma supplyScan_first_nearest:
  assumes "supplyScan p bs (n, m) = (Some b, md)"
    and "n = None \<longrightarrow> m = None"
    and "\<forall>c. n = Some c \<longrightarrow> m = Some (manhattanDistance p (base_position c))"
  shows "md = Some (manhattanDistance p (base_position b))
       \<and> ((n = Some b
            \<and> (\<forall>b' \<in> set bs. real_of_int (manhattanDistance p (base_position b')) \<le> supplyRange b'
                  \<longrightarrow> manhattanDistance p (base_position b) \<le> manhattanDistance p (base_position b')))
          \<or> (\<exists>pre post. bs = pre @ b # post
                \<and> real_of_int (manhattanDistance p (base_position b)) \<le> supplyRange b
                \<and> (\<forall>k. m = Some k \<longrightarrow> manhattanDistance p (base_position b) < k)
                \<and> (\<forall>b' \<in> set pre. real_of_int (manhattanDistance p (base_position b')) \<le> supplyRange b'
                      \<longrightarrow> manhattanDistance p (base_position b) < manhattanDistance p (base_position b'))
                \<and> (\<forall>b' \<in> set post. real_of_int (manhattanDistance p (base_position b')) \<le> supplyRange b'
                      \<longrightarrow> manhattanDistance p (base_position b) \<le> manhattanDistance p (base_position b'))))"
  using assms
proof (induction bs arbitrary: n m)
  case Nil
  then show ?case by simp
next
  case (Cons c bs)
  let ?d = "\<lambda>x. manhattanDistance p (base_position x)"
  let ?in = "\<lambda>x. real_of_int (?d x) \<le> supplyRange x"
  show ?case
  proof (cases "?in c \<and> (case m of None \<Rightarrow> True | Some k \<Rightarrow> ?d c < k)")
    case True
    with Cons.prems(1)
    have sc: "supplyScan p bs (Some c, Some (?d c)) = (Some b, md)"
      by (simp add: Let_def)
    have ih: "md = Some (?d b)
       \<and> ((Some c = Some b \<and> (\<forall>b' \<in> set bs. ?in b' \<longrightarrow> ?d b \<le> ?d b'))
          \<or> (\<exists>pre post. bs = pre @ b # post \<and> ?in b
                \<and> (\<forall>k. Some (?d c) = Some k \<longrightarrow> ?d b < k)
                \<and> (\<forall>b' \<in> set pre. ?in b' \<longrightarrow> ?d b < ?d b')
                \<and> (\<forall>b' \<in> set post. ?in b' \<longrightarrow> ?d b \<le> ?d b')))"
      by (rule Cons.IH [OF sc]) simp_all
    then have md: "md = Some (?d b)" by simp
    from ih consider (a) "c = b" "\<forall>b' \<in> set bs. ?in b' \<longrightarrow> ?d b \<le> ?d b'"
      | (b) pre post where "bs = pre @ b # post" "?in b" "?d b < ?d c"
          "\<forall>b' \<in> set pre. ?in b' \<longrightarrow> ?d b < ?d b'" "\<forall>b' \<in> set post. ?in b' \<longrightarrow> ?d b \<le> ?d b'"
      by auto
    then have "\<exists>pre post. c # bs = pre @ b # post \<and> ?in b
                \<and> (\<forall>k. m = Some k \<longrightarrow> ?d b < k)
                \<and> (\<forall>b' \<in> set pre. ?in b' \<longrightarrow> ?d b < ?d b')
                \<and> (\<forall>b' \<in> set post. ?in b' \<longrightarrow> ?d b \<le> ?d b')"
    proof cases
      case a
      have "c # bs = [] @ b # bs" using a(1) by simp
      moreover have "\<forall>k. m = Some k \<longrightarrow> ?d b < k" using True a(1) by auto
      ultimately show ?thesis using True a by (intro exI [of _ "[]"] exI [of _ bs]) simp
    next
      case b
      have "c # bs = (c # pre) @ b # post" using b(1) by simp
      moreover have "\<forall>k. m = Some k \<longrightarrow> ?d b < k" using True b(3) by auto
      moreover have "\<forall>b' \<in> set (c # pre). ?in b' \<longrightarrow> ?d b < ?d b'" using b(3,4) by simp
      ultimately show ?thesis using b(2,5) by (intro exI [of _ "c # pre"] exI [of _ post]) simp
    qed
    with md show ?thesis by simp
  next
    case False
    with Cons.prems(1) have sc: "supplyScan p bs (n, m) = (Some b, md)"
      by (simp add: Let_def)
    note ih = Cons.IH [OF sc Cons.prems(2,3)]
    then have md: "md = Some (?d b)" by simp
    from ih consider (a) "n = Some b" "\<forall>b' \<in> set bs. ?in b' \<longrightarrow> ?d b \<le> ?d b'"
      | (b) pre post where "bs = pre @ b # post" "?in b" "\<forall>k. m = Some k \<longrightarrow> ?d b < k"
          "\<forall>b' \<in> set pre. ?in b' \<longrightarrow> ?d b < ?d b'" "\<forall>b' \<in> set post. ?in b' \<longrightarrow> ?d b \<le> ?d b'"
      by auto
    then show ?thesis
    proof cases
      case a
      from a(1) Cons.prems(3) have m: "m = Some (?d b)" by simp
      with False have "?in c \<longrightarrow> ?d b \<le> ?d c" by auto
      with a md show ?thesis by simp
    next
      case b
      have c: "?in c \<longrightarrow> ?d b < ?d c"
      proof
        assume "?in c"
        with False obtain k where "m = Some k" "\<not> ?d c < k" by (cases m) auto
        with b(3) show "?d b < ?d c" by auto
      qed
      have "c # bs = (c # pre) @ b # post" using b(1) by simp
      moreover have "\<forall>b' \<in> set (c # pre). ?in b' \<longrightarrow> ?d b < ?d b'" using c b(4) by simp
      ultimately have "\<exists>pre post. c # bs = pre @ b # post \<and> ?in b
                \<and> (\<forall>k. m = Some k \<longrightarrow> ?d b < k)
                \<and> (\<forall>b' \<in> set pre. ?in b' \<longrightarrow> ?d b < ?d b')
                \<and> (\<forall>b' \<in> set post. ?in b' \<longrightarrow> ?d b \<le> ?d b')"
        using b(2,3,5) by (intro exI [of _ "c # pre"] exI [of _ post]) simp
      with md show ?thesis by simp
    qed
  qed
qed


lemma supplyScan_Some:
  "supplyScan p bs (n, m) = (Some b, md) \<Longrightarrow>
   n = Some b \<or> (b \<in> set bs \<and> real_of_int (manhattanDistance p (base_position b)) \<le> supplyRange b)"
proof (induction bs arbitrary: n m)
  case Nil
  then show ?case by simp
next
  case (Cons c bs)
  show ?case
  proof (cases "real_of_int (manhattanDistance p (base_position c)) \<le> supplyRange c
            \<and> (case m of None \<Rightarrow> True | Some k \<Rightarrow> manhattanDistance p (base_position c) < k)")
    case True
    with Cons.prems
    have "supplyScan p bs (Some c, Some (manhattanDistance p (base_position c))) = (Some b, md)"
      by (simp add: Let_def)
    from Cons.IH [OF this] True show ?thesis by auto
  next
    case False
    with Cons.prems have "supplyScan p bs (n, m) = (Some b, md)"
      by (simp add: Let_def)
    from Cons.IH [OF this] show ?thesis by auto
  qed
qed

lemma nearestBase_in_range:
  assumes "nearestBase (calculateUnitSupply ss unit pos) = Some b"
  shows "b \<in> set (bases ss) \<and> base_faction b = faction unit
       \<and> real_of_int (manhattanDistance pos (base_position b)) \<le> supplyRange b"
proof -
  obtain n md where sc: "supplyScan pos (getBasesByFaction ss (faction unit)) (None, None) = (n, md)"
    by (cases "supplyScan pos (getBasesByFaction ss (faction unit)) (None, None)")
  with assms have "n = Some b"
    by (simp add: calculateUnitSupply_def Let_def)
  with sc supplyScan_Some [of pos "getBasesByFaction ss (faction unit)" None None b md]
  show ?thesis by (auto simp: getBasesByFaction_def)
qed

lemma resupplyUnit_Some:
  assumes "nearestBase (calculateUnitSupply ss (store u) pos) = Some b"
  shows "resupplyUnit ss store u pos =
     (\<lparr>fuelAdded = min (fuelMax (store u) - fuelCurrent (store u)) (fuelProduction b),
       ammoAdded = min (ammunitionMax (store u) - ammunitionCurrent (store u))
                     (ammunitionProduction b),
       resupplied = (min (fuelMax (store u) - fuelCurrent (store u)) (fuelProduction b) > 0
                  \<or> min (ammunitionMax (store u) - ammunitionCurrent (store u))
                       (ammunitionProduction b) > 0)\<rparr>,
      store(u := (store u)
        \<lparr>fuelCurrent := fuelCurrent (store u)
            + min (fuelMax (store u) - fuelCurrent (store u)) (fuelProduction b),
         ammunitionCurrent := ammunitionCurrent (store u)
            + min (ammunitionMax (store u) - ammunitionCurrent (store u))
                (ammunitionProduction b)\<rparr>))"
proof -
  have "inSupplyRange (calculateUnitSupply ss (store u) pos)"
    using assms by (simp add: calculateUnitSupply_def Let_def split: prod.splits)
  then show ?thesis
    using assms by (simp add: resupplyUnit_def Let_def)
qed

lemma resupplyUnit_None:
  assumes "\<forall>b \<in> set (bases ss). base_faction b = faction (store u)
             \<longrightarrow> \<not> real_of_int (manhattanDistance pos (base_position b)) \<le> supplyRange b"
  shows "resupplyUnit ss store u pos = (\<lparr>fuelAdded = 0, ammoAdded = 0, resupplied = False\<rparr>, store)"
proof (cases "nearestBase (calculateUnitSupply ss (store u) pos)")
  case None
  then show ?thesis by (simp add: resupplyUnit_def Let_def)
next
  case (Some b)
  from nearestBase_in_range [OF this] assms show ?thesis by blast
qed

lemma calculateUnitSupply_nearest:
  assumes "b0 \<in> set (bases ss)" and "base_faction b0 = faction unit"
    and "real_of_int (manhattanDistance pos (base_position b0)) \<le> supplyRange b0"
  shows "\<exists>b pre post. nearestBase (calculateUnitSupply ss unit pos) = Some b
       \<and> inSupplyRange (calculateUnitSupply ss unit pos)
       \<and> supplyDistance (calculateUnitSupply ss unit pos)
           = Some (manhattanDistance pos (base_position b))
       \<and> getBasesByFaction ss (faction unit) = pre @ b # post
       \<and> real_of_int (manhattanDistance pos (base_position b)) \<le> supplyRange b
       \<and> (\<forall>b' \<in> set pre. real_of_int (manhattanDistance pos (base_position b')) \<le> supplyRange b'
             \<longrightarrow> manhattanDistance pos (base_position b) < manhattanDistance pos (base_position b'))
       \<and> (\<forall>b' \<in> set post. real_of_int (manhattanDistance pos (base_position b')) \<le> supplyRange b'
             \<longrightarrow> manhattanDistance pos (base_position b) \<le> manhattanDistance pos (base_position b'))"
proof -
  let ?bs = "getBasesByFaction ss (faction unit)"
  have mem: "b0 \<in> set ?bs" using assms(1,2) by (simp add: getBasesByFaction_def)
  have "fst (supplyScan pos ?bs (None, None)) \<noteq> None"
    by (rule supplyScan_found) (use mem assms(3) in auto)
  then obtain b md where sc: "supplyScan pos ?bs (None, None) = (Some b, md)"
    by (cases "supplyScan pos ?bs (None, None)") auto
  from supplyScan_first_nearest [OF sc] obtain pre post where
    md: "md = Some (manhattanDistance pos (base_position b))"
    and dec: "?bs = pre @ b # post"
    and inr: "real_of_int (manhattanDistance pos (base_position b)) \<le> supplyRange b"
    and pre: "\<forall>b' \<in> set pre. real_of_int (manhattanDistance pos (base_position b')) \<le> supplyRange b'
             \<longrightarrow> manhattanDistance pos (base_position b) < manhattanDistance pos (base_position b')"
    and post: "\<forall>b' \<in> set post. real_of_int (manhattanDistance pos (base_position b')) \<le> supplyRange b'
             \<longrightarrow> manhattanDistance pos (base_position b) \<le> manhattanDistance pos (base_position b')"
    by auto
  have "nearestBase (calculateUnitSupply ss unit pos) = Some b"
    "inSupplyRange (calculateUnitSupply ss unit pos)"
    "supplyDistance (calculateUnitSupply ss unit pos) = Some (manhattanDistance pos (base_position b))"
    using sc md by (simp_all add: calculateUnitSupply_def Let_def)
  with dec inr pre post show ?thesis by blast
qed

text \<open>
  C7. A unit in supply range of a base (some base of the supply system has the unit's
  faction and lies at a Manhattan distance of at most its supply range from the unit's
  position) is served: \<open>calculateUnitSupply\<close> selects a base \<open>b\<close> of the unit's faction
  within its supply range, the nearest such base and among equally near ones the first
  of the base list, and \<open>resupplyUnit\<close> adds exactly
  \<open>min (maximum - current) (production of b)\<close> of fuel and of ammunition to that unit
  and changes nothing else; afterwards neither resource exceeds its maximum; a unit
  already at both maxima is left unchanged (for production rates that are not negative);
  and a unit at 10 of 50 fuel at a base producing 60 gains exactly 40.
\<close>

theorem resupplyUnit_tops_up:
  assumes "base \<in> set (bases ss)" and "base_faction base = faction (store u)"
    and "real_of_int (manhattanDistance pos (base_position base)) \<le> supplyRange base"
  shows "\<exists>b pre post.
         nearestBase (calculateUnitSupply ss (store u) pos) = Some b
       \<and> getBasesByFaction ss (faction (store u)) = pre @ b # post
       \<and> (\<forall>b' \<in> set pre. real_of_int (manhattanDistance pos (base_position b')) \<le> supplyRange b'
             \<longrightarrow> manhattanDistance pos (base_position b) < manhattanDistance pos (base_position b'))
       \<and> (\<forall>b' \<in> set post. real_of_int (manhattanDistance pos (base_position b')) \<le> supplyRange b'
             \<longrightarrow> manhattanDistance pos (base_position b) \<le> manhattanDistance pos (base_position b'))
       \<and> (\<forall>b' \<in> set (bases ss). base_faction b' = faction (store u)
               \<and> real_of_int (manhattanDistance pos (base_position b')) \<le> supplyRange b'
             \<longrightarrow> manhattanDistance pos (base_position b) \<le> manhattanDistance pos (base_position b'))
       \<and> b \<in> set (bases ss) \<and> base_faction b = faction (store u)
       \<and> real_of_int (manhattanDistance pos (base_position b)) \<le> supplyRange b
       \<and> fuelAdded (fst (resupplyUnit ss store u pos))
           = min (fuelMax (store u) - fuelCurrent (store u)) (fuelProduction b)
       \<and> ammoAdded (fst (resupplyUnit ss store u pos))
           = min (ammunitionMax (store u) - ammunitionCurrent (store u)) (ammunitionProduction b)
       \<and> snd (resupplyUnit ss store u pos)
           = store(u := (store u)
               \<lparr>fuelCurrent := fuelCurrent (store u) + fuelAdded (fst (resupplyUnit ss store u pos)),
                ammunitionCurrent := ammunitionCurrent (store u)
                   + ammoAdded (fst (resupplyUnit ss store u pos))\<rparr>)
       \<and> fuelCurrent (snd (resupplyUnit ss store u pos) u) \<le> fuelMax (store u)
       \<and> ammunitionCurrent (snd (resupplyUnit ss store u pos) u) \<le> ammunitionMax (store u)
       \<and> (fuelCurrent (store u) = fuelMax (store u)
            \<and> ammunitionCurrent (store u) = ammunitionMax (store u)
            \<and> 0 \<le> fuelProduction b \<and> 0 \<le> ammunitionProduction b
          \<longrightarrow> snd (resupplyUnit ss store u pos) = store)
       \<and> (fuelCurrent (store u) = 10 \<and> fuelMax (store u) = 50 \<and> fuelProduction b = 60
          \<longrightarrow> fuelAdded (fst (resupplyUnit ss store u pos)) = 40)"
proof -
  let ?d = "\<lambda>x. manhattanDistance pos (base_position x)"
  from calculateUnitSupply_nearest [OF assms] obtain b pre post where
    nb: "nearestBase (calculateUnitSupply ss (store u) pos) = Some b"
    and dec: "getBasesByFaction ss (faction (store u)) = pre @ b # post"
    and pre: "\<forall>b' \<in> set pre. real_of_int (?d b') \<le> supplyRange b' \<longrightarrow> ?d b < ?d b'"
    and post: "\<forall>b' \<in> set post. real_of_int (?d b') \<le> supplyRange b' \<longrightarrow> ?d b \<le> ?d b'"
    by blast
  have near: "\<forall>b' \<in> set (bases ss). base_faction b' = faction (store u)
               \<and> real_of_int (?d b') \<le> supplyRange b' \<longrightarrow> ?d b \<le> ?d b'"
  proof (intro ballI impI)
    fix b' assume "b' \<in> set (bases ss)"
      and b': "base_faction b' = faction (store u) \<and> real_of_int (?d b') \<le> supplyRange b'"
    then have "b' \<in> set (getBasesByFaction ss (faction (store u)))"
      by (simp add: getBasesByFaction_def)
    then have "b' \<in> set pre \<or> b' = b \<or> b' \<in> set post" unfolding dec by auto
    then show "?d b \<le> ?d b'"
      using pre post b' by fastforce
  qed
  note r = resupplyUnit_Some [where store=store and u=u, OF nb]
  have idem: "snd (resupplyUnit ss store u pos) = store"
    if "fuelCurrent (store u) = fuelMax (store u)"
      "ammunitionCurrent (store u) = ammunitionMax (store u)"
      "0 \<le> fuelProduction b" "0 \<le> ammunitionProduction b"
  proof -
    have "(store u)\<lparr>fuelCurrent := fuelMax (store u),
            ammunitionCurrent := ammunitionMax (store u)\<rparr> = store u"
      using that(1,2) by (cases "store u") simp
    then have "store(u := (store u)\<lparr>fuelCurrent := fuelMax (store u),
            ammunitionCurrent := ammunitionMax (store u)\<rparr>) = store"
      by simp
    then show ?thesis using that by (simp add: r)
  qed
  have le: "c + min (m - c) p \<le> m" for c m p :: real
    by (simp add: min_def)
  have rest: "b \<in> set (bases ss) \<and> base_faction b = faction (store u)
       \<and> real_of_int (manhattanDistance pos (base_position b)) \<le> supplyRange b
       \<and> fuelAdded (fst (resupplyUnit ss store u pos))
           = min (fuelMax (store u) - fuelCurrent (store u)) (fuelProduction b)
       \<and> ammoAdded (fst (resupplyUnit ss store u pos))
           = min (ammunitionMax (store u) - ammunitionCurrent (store u)) (ammunitionProduction b)
       \<and> snd (resupplyUnit ss store u pos)
           = store(u := (store u)
               \<lparr>fuelCurrent := fuelCurrent (store u) + fuelAdded (fst (resupplyUnit ss store u pos)),
                ammunitionCurrent := ammunitionCurrent (store u)
                   + ammoAdded (fst (resupplyUnit ss store u pos))\<rparr>)
       \<and> fuelCurrent (snd (resupplyUnit ss store u pos) u) \<le> fuelMax (store u)
       \<and> ammunitionCurrent (snd (resupplyUnit ss store u pos) u) \<le> ammunitionMax (store u)
       \<and> (fuelCurrent (store u) = fuelMax (store u)
            \<and> ammunitionCurrent (store u) = ammunitionMax (store u)
            \<and> 0 \<le> fuelProduction b \<and> 0 \<le> ammunitionProduction b
          \<longrightarrow> snd (resupplyUnit ss store u pos) = store)
       \<and> (fuelCurrent (store u) = 10 \<and> fuelMax (store u) = 50 \<and> fuelProduction b = 60
          \<longrightarrow> fuelAdded (fst (resupplyUnit ss store u pos)) = 40)"
    using idem le nearestBase_in_range [OF nb] by (simp add: r)
  show ?thesis
    apply (rule exI [of _ b], rule exI [of _ pre], rule exI [of _ post])
    apply (rule conjI [OF nb conjI [OF dec conjI [OF pre conjI [OF post conjI [OF near rest]]]]])
    done
qed

theorem resupplyUnit_tops_up_witness:
  "fuelAdded (fst (resupplyUnit (SupplySystem_new sampleMap)
          ((\<lambda>r::nat. infantry)(1 := infantry\<lparr>fuelCurrent := 10\<rparr>)) 1 \<lparr>pos_x = 1, pos_y = 2\<rparr>)) = 20
   \<and> fuelCurrent (snd (resupplyUnit (SupplySystem_new sampleMap)
          ((\<lambda>r::nat. infantry)(1 := infantry\<lparr>fuelCurrent := 10\<rparr>)) 1 \<lparr>pos_x = 1, pos_y = 2\<rparr>) 1) = 30
   \<and> snd (resupplyUnit (SupplySystem_new sampleMap)
          ((\<lambda>r::nat. infantry)(1 := infantry\<lparr>fuelCurrent := 10\<rparr>)) 0 \<lparr>pos_x = 1, pos_y = 2\<rparr>)
       = (\<lambda>r::nat. infantry)(1 := infantry\<lparr>fuelCurrent := 10\<rparr>)
   \<and> fuelAdded (fst (resupplyUnit
          \<lparr>bases = [\<lparr>base_id = ''depot'', base_position = \<lparr>pos_x = 0, pos_y = 0\<rparr>,
             base_faction = PLAYER, base_name = ''Depot'', fuelProduction = 60,
             ammunitionProduction = 0, supplyRange = 2, capturable = True\<rparr>]\<rparr>
          (\<lambda>r::nat. infantry\<lparr>fuelCurrent := 10\<rparr>) 0 \<lparr>pos_x = 1, pos_y = 0\<rparr>)) = 40
   \<and> fuelAdded (fst (resupplyUnit
          \<lparr>bases = [\<lparr>base_id = ''depot'', base_position = \<lparr>pos_x = 0, pos_y = 0\<rparr>,
             base_faction = PLAYER, base_name = ''Depot'', fuelProduction = 60,
             ammunitionProduction = 0, supplyRange = 2, capturable = True\<rparr>]\<rparr>
          (\<lambda>r::nat. infantry\<lparr>fuelCurrent := 10\<rparr>) 0 \<lparr>pos_x = 2, pos_y = 0\<rparr>)) = 40
   \<and> fuelAdded (fst (resupplyUnit
          \<lparr>bases = [\<lparr>base_id = ''depot'', base_position = \<lparr>pos_x = 0, pos_y = 0\<rparr>,
             base_faction = PLAYER, base_name = ''Depot'', fuelProduction = 60,
             ammunitionProduction = 0, supplyRange = 2, capturable = True\<rparr>,
            \<lparr>base_id = ''forward'', base_position = \<lparr>pos_x = 3, pos_y = 0\<rparr>,
             base_faction = PLAYER, base_name = ''Forward'', fuelProduction = 7,
             ammunitionProduction = 0, supplyRange = 5, capturable = True\<rparr>]\<rparr>
          (\<lambda>r::nat. infantry\<lparr>fuelCurrent := 10\<rparr>) 0 \<lparr>pos_x = 2, pos_y = 0\<rparr>)) = 7"
proof -
  let ?hq = "\<lparr>base_id = ''player-hq'', base_position = \<lparr>pos_x = 2, pos_y = 2\<rparr>,
         base_faction = PLAYER, base_name = ''Player HQ'', fuelProduction = 20,
         ammunitionProduction = 15, supplyRange = 8, capturable = False\<rparr>"
  let ?depot = "\<lparr>base_id = ''depot'', base_position = \<lparr>pos_x = 0, pos_y = 0\<rparr>,
             base_faction = PLAYER, base_name = ''Depot'', fuelProduction = 60,
             ammunitionProduction = 0, supplyRange = 2, capturable = True\<rparr>"
  let ?fwd = "\<lparr>base_id = ''forward'', base_position = \<lparr>pos_x = 3, pos_y = 0\<rparr>,
             base_faction = PLAYER, base_name = ''Forward'', fuelProduction = 7,
             ammunitionProduction = 0, supplyRange = 5, capturable = True\<rparr>"
  let ?S = "SupplySystem_new sampleMap"
  let ?st = "(\<lambda>r::nat. infantry)(1 := infantry\<lparr>fuelCurrent := 10\<rparr>)"
  let ?low = "\<lambda>r::nat. infantry\<lparr>fuelCurrent := 10\<rparr>"
  let ?p = "\<lparr>pos_x = 1, pos_y = 2\<rparr>"
  have hq: "?hq \<in> set (bases ?S)"
    "real_of_int (manhattanDistance ?p (base_position ?hq)) \<le> supplyRange ?hq"
    by (simp_all add: sample_bases manhattanDistance_def)
  have f1: "base_faction ?hq = faction (?st 1)" and f0: "base_faction ?hq = faction (?st 0)"
    by (simp_all add: infantry_fields)
  have only_hq: "b = ?hq" if "b \<in> set (bases ?S)" "base_faction b = PLAYER" for b
    using that by (auto simp: sample_bases)
  have c1: "fuelAdded (fst (resupplyUnit ?S ?st 1 ?p)) = 20"
  proof -
    from resupplyUnit_tops_up [where ss = "?S" and store = "?st" and u = 1 and pos = "?p"
        and base = "?hq", OF hq(1) f1 hq(2)]
    obtain b where "b \<in> set (bases ?S)" "base_faction b = faction (?st 1)"
      "fuelAdded (fst (resupplyUnit ?S ?st 1 ?p))
         = min (fuelMax (?st 1) - fuelCurrent (?st 1)) (fuelProduction b)"
      by (elim exE conjE) (rule that; assumption)
    moreover from this(1,2) have "b = ?hq" by (intro only_hq) (simp_all add: infantry_fields)
    ultimately show ?thesis by (simp add: infantry_fields)
  qed
  have c2: "fuelCurrent (snd (resupplyUnit ?S ?st 1 ?p) 1) = 30"
  proof -
    from resupplyUnit_tops_up [where ss = "?S" and store = "?st" and u = 1 and pos = "?p"
        and base = "?hq", OF hq(1) f1 hq(2)]
    have "\<exists>b. snd (resupplyUnit ?S ?st 1 ?p)
           = ?st(1 := (?st 1)
               \<lparr>fuelCurrent := fuelCurrent (?st 1) + fuelAdded (fst (resupplyUnit ?S ?st 1 ?p)),
                ammunitionCurrent := ammunitionCurrent (?st 1)
                   + ammoAdded (fst (resupplyUnit ?S ?st 1 ?p))\<rparr>)"
      by (elim exE conjE) (rule exI; assumption)
    then show ?thesis using c1 by (simp add: infantry_fields)
  qed
  have c3: "snd (resupplyUnit ?S ?st 0 ?p) = ?st"
  proof -
    from resupplyUnit_tops_up [where ss = "?S" and store = "?st" and u = 0 and pos = "?p"
        and base = "?hq", OF hq(1) f0 hq(2)]
    obtain b where "b \<in> set (bases ?S)" "base_faction b = faction (?st 0)"
      "fuelCurrent (?st 0) = fuelMax (?st 0)
         \<and> ammunitionCurrent (?st 0) = ammunitionMax (?st 0)
         \<and> 0 \<le> fuelProduction b \<and> 0 \<le> ammunitionProduction b
       \<longrightarrow> snd (resupplyUnit ?S ?st 0 ?p) = ?st"
      by (elim exE conjE) (rule that; assumption)
    moreover from this(1,2) have "b = ?hq" by (intro only_hq) (simp_all add: infantry_fields)
    ultimately show ?thesis by (simp add: infantry_fields)
  qed
  have dp: "?depot \<in> set (bases \<lparr>bases = [?depot]\<rparr>)" "base_faction ?depot = faction (?low 0)"
    "real_of_int (manhattanDistance \<lparr>pos_x = 1, pos_y = 0\<rparr> (base_position ?depot))
       \<le> supplyRange ?depot"
    "real_of_int (manhattanDistance \<lparr>pos_x = 2, pos_y = 0\<rparr> (base_position ?depot))
       \<le> supplyRange ?depot"
    by (simp_all add: infantry_fields manhattanDistance_def)
  have c4: "fuelAdded (fst (resupplyUnit \<lparr>bases = [?depot]\<rparr> ?low 0 \<lparr>pos_x = 1, pos_y = 0\<rparr>)) = 40"
  proof -
    from resupplyUnit_tops_up [where ss = "\<lparr>bases = [?depot]\<rparr>" and store = "?low" and u = 0
        and pos = "\<lparr>pos_x = 1, pos_y = 0\<rparr>" and base = "?depot", OF dp(1) dp(2) dp(3)]
    obtain b where "b \<in> set (bases \<lparr>bases = [?depot]\<rparr>)"
      "fuelAdded (fst (resupplyUnit \<lparr>bases = [?depot]\<rparr> ?low 0 \<lparr>pos_x = 1, pos_y = 0\<rparr>))
         = min (fuelMax (?low 0) - fuelCurrent (?low 0)) (fuelProduction b)"
      by (elim exE conjE) (rule that; assumption)
    then show ?thesis by (simp add: infantry_fields)
  qed
  have c5: "fuelAdded (fst (resupplyUnit \<lparr>bases = [?depot]\<rparr> ?low 0 \<lparr>pos_x = 2, pos_y = 0\<rparr>)) = 40"
  proof -
    from resupplyUnit_tops_up [where ss = "\<lparr>bases = [?depot]\<rparr>" and store = "?low" and u = 0
        and pos = "\<lparr>pos_x = 2, pos_y = 0\<rparr>" and base = "?depot", OF dp(1) dp(2) dp(4)]
    obtain b where "b \<in> set (bases \<lparr>bases = [?depot]\<rparr>)"
      "fuelAdded (fst (resupplyUnit \<lparr>bases = [?depot]\<rparr> ?low 0 \<lparr>pos_x = 2, pos_y = 0\<rparr>))
         = min (fuelMax (?low 0) - fuelCurrent (?low 0)) (fuelProduction b)"
      by (elim exE conjE) (rule that; assumption)
    then show ?thesis by (simp add: infantry_fields)
  qed
  have c6: "fuelAdded (fst (resupplyUnit \<lparr>bases = [?depot, ?fwd]\<rparr> ?low 0 \<lparr>pos_x = 2, pos_y = 0\<rparr>)) = 7"
  proof -
    let ?q = "\<lparr>pos_x = 2, pos_y = 0\<rparr>"
    have m2: "?depot \<in> set (bases \<lparr>bases = [?depot, ?fwd]\<rparr>)" by simp
    from resupplyUnit_tops_up [where ss = "\<lparr>bases = [?depot, ?fwd]\<rparr>" and store = "?low" and u = 0
        and pos = "?q" and base = "?depot", OF m2 dp(2) dp(4)]
    obtain b where b: "b \<in> set (bases \<lparr>bases = [?depot, ?fwd]\<rparr>)"
      and nearest: "\<forall>b' \<in> set (bases \<lparr>bases = [?depot, ?fwd]\<rparr>). base_faction b' = faction (?low 0)
               \<and> real_of_int (manhattanDistance ?q (base_position b')) \<le> supplyRange b'
             \<longrightarrow> manhattanDistance ?q (base_position b) \<le> manhattanDistance ?q (base_position b')"
      and added: "fuelAdded (fst (resupplyUnit \<lparr>bases = [?depot, ?fwd]\<rparr> ?low 0 ?q))
         = min (fuelMax (?low 0) - fuelCurrent (?low 0)) (fuelProduction b)"
      by (elim exE conjE) (rule that; assumption)
    from nearest have "manhattanDistance ?q (base_position b) \<le> 1"
      by (simp add: infantry_fields manhattanDistance_def)
    with b have "b = ?fwd" by (auto simp: manhattanDistance_def)
    with added show ?thesis by (simp add: infantry_fields)
  qed
  show ?thesis
    using c1 c2 c3 c4 c5 c6 by simp
qed


section \<open>Supply: capturing a base\<close>

lemma findIndex_from_first:
  "distinct (map f es) \<Longrightarrow> b \<in> set es \<Longrightarrow> 0 \<le> i \<Longrightarrow>
   \<exists>k. findIndex_from (\<lambda>e. f e = f b) es i = i + int k \<and> k < length es \<and> es ! k = b"
proof (induction es arbitrary: i)
  case Nil
  then show ?case by simp
next
  case (Cons e es)
  show ?case
  proof (cases "f e = f b")
    case True
    with Cons.prems have "e = b" by (auto simp: image_iff)
    with True show ?thesis by (intro exI [of _ 0]) simp
  next
    case False
    with Cons.prems have mem: "b \<in> set es" and d: "distinct (map f es)" by auto
    from Cons.IH [OF d mem, of "i + 1"] Cons.prems(3)
    obtain k where "findIndex_from (\<lambda>e. f e = f b) es (i + 1) = i + 1 + int k"
      "k < length es" "es ! k = b" by auto
    with False show ?thesis by (intro exI [of _ "Suc k"]) simp
  qed
qed

text \<open>
  C8. In a supply system whose base identifiers are pairwise different, for every
  existing base \<open>b\<close>: if \<open>b\<close> is not capturable, \<open>captureBase\<close> on its identifier
  returns false and leaves the system unchanged; if \<open>b\<close> is capturable, it returns true
  and the only change is that the faction of \<open>b\<close> becomes the new faction.
\<close>

theorem captureBase_capturable_only:
  assumes "distinct (map base_id (bases ss))" and "b \<in> set (bases ss)"
  shows "(\<not> capturable b \<longrightarrow> captureBase ss (base_id b) newFaction = (False, ss))
       \<and> (capturable b \<longrightarrow>
            (\<exists>k < length (bases ss). bases ss ! k = b
               \<and> captureBase ss (base_id b) newFaction
                   = (True, ss\<lparr>bases := (bases ss)[k := b\<lparr>base_faction := newFaction\<rparr>]\<rparr>)))"
proof -
  from findIndex_from_first [OF assms, of 0]
  obtain k where k: "findIndex (\<lambda>e. base_id e = base_id b) (bases ss) = int k"
    "k < length (bases ss)" "bases ss ! k = b"
    by (auto simp: findIndex_def)
  show ?thesis
    using k by (auto simp: captureBase_def Let_def)
qed

theorem captureBase_capturable_only_witness:
  "distinct (map base_id (bases (SupplySystem_new sampleMap)))
   \<and> bases (SupplySystem_new sampleMap) ! 0 \<in> set (bases (SupplySystem_new sampleMap))
   \<and> bases (SupplySystem_new sampleMap) ! 2 \<in> set (bases (SupplySystem_new sampleMap))
   \<and> \<not> capturable (bases (SupplySystem_new sampleMap) ! 0)
   \<and> capturable (bases (SupplySystem_new sampleMap) ! 2)
   \<and> captureBase (SupplySystem_new sampleMap) ''player-hq'' ENEMY
        = (False, SupplySystem_new sampleMap)
   \<and> fst (captureBase (SupplySystem_new sampleMap) ''outpost-1'' ENEMY) = True"
proof -
  let ?ss = "SupplySystem_new sampleMap"
  have d: "distinct (map base_id (bases ?ss))" by (simp add: sample_bases)
  have m0: "bases ?ss ! 0 \<in> set (bases ?ss)" and m2: "bases ?ss ! 2 \<in> set (bases ?ss)"
    by (simp_all add: sample_bases)
  have c0: "\<not> capturable (bases ?ss ! 0)" and c2: "capturable (bases ?ss ! 2)"
    by (simp_all add: sample_bases)
  have i0: "base_id (bases ?ss ! 0) = ''player-hq''" and i2: "base_id (bases ?ss ! 2) = ''outpost-1''"
    by (simp_all add: sample_bases)
  from captureBase_capturable_only [OF d m0, of ENEMY] c0 i0
  have r0: "captureBase ?ss ''player-hq'' ENEMY = (False, ?ss)" by simp
  from captureBase_capturable_only [OF d m2, of ENEMY] c2 i2
  have r2: "fst (captureBase ?ss ''outpost-1'' ENEMY) = True" by auto
  show ?thesis using d m0 m2 c0 c2 r0 r2 by simp
qed


section \<open>Utility AI: the pursue score\<close>

text \<open>
  C4. The code departs from the stated score. It writes the last summand as
  \<open>(1 - (distance / detectionRange) * 0.2)\<close>, so the factor 0.2 multiplies the quotient
  only and the summand lies between 0.8 and 1, where the stated
  \<open>(1 - distance / detectionRange) * 0.2\<close> lies between 0 and 0.2 like the other
  weights of the evaluators (\<open>evaluateRetreat\<close> writes \<open>(1 - aggressiveness) * 0.3\<close>).
  With the infantry unit at (0, 0) and one enemy at distance 3 (beyond attack range 2,
  within detection range 5) \<open>evaluateMoveToEnemy\<close> scores 1.59, while
  0.6 * aggressiveness + 0.3 * sensorWeight + 0.2 + (1 - distance / detectionRange) * 0.2
  is 0.79.
\<close>

theorem pursue_score_at_failing_input:
  "score (evaluateMoveToEnemy
      \<lparr>ctx_unit = infantry, ctx_position = \<lparr>pos_x = 0, pos_y = 0\<rparr>,
       enemies = [\<lparr>unitData = enemy_infantry, ua_position = \<lparr>pos_x = 3, pos_y = 0\<rparr>\<rparr>],
       allies = []\<rparr>) = 159 / 100
   \<and> real_of_int (manhattanDistance \<lparr>pos_x = 0, pos_y = 0\<rparr> \<lparr>pos_x = 3, pos_y = 0\<rparr>)
        > attackRange infantry
   \<and> real_of_int (manhattanDistance \<lparr>pos_x = 0, pos_y = 0\<rparr> \<lparr>pos_x = 3, pos_y = 0\<rparr>)
        \<le> detectionRange infantry
   \<and> 0.6 * aggressiveness infantry + 0.3 * sensorWeight infantry
        + (if health infantry / maxHealth infantry > 0.7 then 0.2 else -0.1)
        + (1 - real_of_int (manhattanDistance \<lparr>pos_x = 0, pos_y = 0\<rparr> \<lparr>pos_x = 3, pos_y = 0\<rparr>)
                 / detectionRange infantry) * 0.2 = 79 / 100"
  by (simp add: evaluateMoveToEnemy_def Let_def manhattanDistance_def infantry_fields)


section \<open>Behavior tree: the enemy-detection condition\<close>

lemma execute_fst:
  "fst (execute node) =
     (if \<exists>other \<in> set (node_units node).
            ((relationshipStatus node = WAR \<or> relationshipStatus node = HOSTILE)
               \<longrightarrow> faction (unitData other) \<noteq> faction (node_unit node))
            \<and> real_of_int (manhattanDistance (node_pos node) (ua_position other)) \<le> node_range node
      then SUCCESS else FAILURE)"
proof -
  have flt: "(0 < length (filter P xs)) = (\<exists>e\<in>set xs. P e)" for P :: "UnitAt \<Rightarrow> bool" and xs
    by (simp add: filter_empty_conv)
  show ?thesis
    unfolding execute_def Let_def fst_conv flt
    by (rule if_cong) auto
qed

text \<open>
  C9, as stated, fails: asked with the tier \<open>neutral\<close> (no tier filter), the node
  succeeds on a list holding only a unit of the asking unit's own faction within range.
\<close>

theorem check_enemy_node_counterexample:
  "fst (execute (CheckEnemyByDiplomacyNode_new infantry \<lparr>pos_x = 0, pos_y = 0\<rparr>
          [\<lparr>unitData = infantry, ua_position = \<lparr>pos_x = 1, pos_y = 0\<rparr>\<rparr>]
          NEUTRAL_STATUS None)) = SUCCESS
   \<and> faction (unitData \<lparr>unitData = infantry, ua_position = \<lparr>pos_x = 1, pos_y = 0\<rparr>\<rparr>)
       = faction infantry"
  by (simp add: execute_def CheckEnemyByDiplomacyNode_new_def Let_def manhattanDistance_def
      infantry_fields)

text \<open>
  C9, amended. The node returns success iff some unit of the list is within the range
  (the range argument when it is positive, else the asking unit's detection range) and,
  when the tier is war or hostile, belongs to a different faction than the asking unit;
  with any other tier every unit within range counts. Otherwise it returns failure.
\<close>

theorem check_enemy_node_success_iff:
  "fst (execute (CheckEnemyByDiplomacyNode_new unit position units status rangeArg)) =
     (if \<exists>other \<in> set units.
            ((status = WAR \<or> status = HOSTILE) \<longrightarrow> faction (unitData other) \<noteq> faction unit)
            \<and> real_of_int (manhattanDistance position (ua_position other))
                \<le> (case rangeArg of
                      None \<Rightarrow> detectionRange unit
                    | Some r \<Rightarrow> if r > 0 then r else detectionRange unit)
      then SUCCESS else FAILURE)"
proof -
  have rng: "node_range (CheckEnemyByDiplomacyNode_new unit position units status rangeArg)
      = (case rangeArg of None \<Rightarrow> detectionRange unit
                | Some r \<Rightarrow> if r > 0 then r else detectionRange unit)"
    by (simp add: CheckEnemyByDiplomacyNode_new_def split: option.splits)
  have rest: "node_units (CheckEnemyByDiplomacyNode_new unit position units status rangeArg) = units"
    "node_unit (CheckEnemyByDiplomacyNode_new unit position units status rangeArg) = unit"
    "node_pos (CheckEnemyByDiplomacyNode_new unit position units status rangeArg) = position"
    "relationshipStatus (CheckEnemyByDiplomacyNode_new unit position units status rangeArg) = status"
    by (simp_all add: CheckEnemyByDiplomacyNode_new_def Let_def)
  show ?thesis
    unfolding execute_fst rng rest ..
qed

theorem check_enemy_node_success_iff_witness:
  "(WAR = WAR \<or> WAR = HOSTILE)
   \<and> faction (unitData \<lparr>unitData = enemy_infantry, ua_position = \<lparr>pos_x = 3, pos_y = 0\<rparr>\<rparr>)
       \<noteq> faction infantry
   \<and> real_of_int (manhattanDistance \<lparr>pos_x = 0, pos_y = 0\<rparr> \<lparr>pos_x = 3, pos_y = 0\<rparr>)
       \<le> detectionRange infantry
   \<and> fst (execute (CheckEnemyByDiplomacyNode_new infantry \<lparr>pos_x = 0, pos_y = 0\<rparr>
          [\<lparr>unitData = enemy_infantry, ua_position = \<lparr>pos_x = 3, pos_y = 0\<rparr>\<rparr>]
          WAR None)) = SUCCESS
   \<and> fst (execute (CheckEnemyByDiplomacyNode_new infantry \<lparr>pos_x = 0, pos_y = 0\<rparr>
          [\<lparr>unitData = infantry, ua_position = \<lparr>pos_x = 1, pos_y = 0\<rparr>\<rparr>]
          WAR (Some 2))) = FAILURE"
  using check_enemy_node_success_iff [of infantry "\<lparr>pos_x = 0, pos_y = 0\<rparr>"
      "[\<lparr>unitData = enemy_infantry, ua_position = \<lparr>pos_x = 3, pos_y = 0\<rparr>\<rparr>]" WAR None]
    check_enemy_node_success_iff [of infantry "\<lparr>pos_x = 0, pos_y = 0\<rparr>"
      "[\<lparr>unitData = infantry, ua_position = \<lparr>pos_x = 1, pos_y = 0\<rparr>\<rparr>]" WAR "Some 2"]
  by (simp add: manhattanDistance_def infantry_fields enemy_infantry_fields)

section \<open>Pathfinding: grid and route facts\<close>

lemma GridPosition_eq_iff:
  "(a = b) = (pos_x a = pos_x b \<and> pos_y a = pos_y b)" for a b :: GridPosition
  by auto

lemma getNeighbors_iff:
  "v \<in> set (getNeighbors u w h) \<longleftrightarrow>
     (0 \<le> pos_x v \<and> pos_x v < w \<and> 0 \<le> pos_y v \<and> pos_y v < h)
     \<and> (v = \<lparr>pos_x = pos_x u, pos_y = pos_y u - 1\<rparr> \<or> v = \<lparr>pos_x = pos_x u + 1, pos_y = pos_y u\<rparr>
        \<or> v = \<lparr>pos_x = pos_x u, pos_y = pos_y u + 1\<rparr> \<or> v = \<lparr>pos_x = pos_x u - 1, pos_y = pos_y u\<rparr>)"
proof -
  have "set (map (\<lambda>(dx, dy). \<lparr>pos_x = pos_x u + dx, pos_y = pos_y u + dy\<rparr>) directions)
      = {\<lparr>pos_x = pos_x u, pos_y = pos_y u - 1\<rparr>, \<lparr>pos_x = pos_x u + 1, pos_y = pos_y u\<rparr>,
         \<lparr>pos_x = pos_x u, pos_y = pos_y u + 1\<rparr>, \<lparr>pos_x = pos_x u - 1, pos_y = pos_y u\<rparr>}"
    by (simp add: directions_def)
  then show ?thesis
    unfolding getNeighbors_def set_filter by blast
qed

lemma neighbor_inGrid:
  "v \<in> set (getNeighbors u (width m) (height m)) \<Longrightarrow> inGrid m v"
  by (simp add: getNeighbors_iff inGrid_def)

lemma neighbor_heuristic:
  assumes "v \<in> set (getNeighbors u w h)"
  shows "manhattanDistance u g \<le> manhattanDistance v g + 1"
proof -
  from assms have "v = \<lparr>pos_x = pos_x u, pos_y = pos_y u - 1\<rparr>
        \<or> v = \<lparr>pos_x = pos_x u + 1, pos_y = pos_y u\<rparr>
        \<or> v = \<lparr>pos_x = pos_x u, pos_y = pos_y u + 1\<rparr>
        \<or> v = \<lparr>pos_x = pos_x u - 1, pos_y = pos_y u\<rparr>"
    by (simp add: getNeighbors_iff)
  then have "(pos_x v = pos_x u \<and> (pos_y v = pos_y u - 1 \<or> pos_y v = pos_y u + 1))
     \<or> (pos_y v = pos_y u \<and> (pos_x v = pos_x u - 1 \<or> pos_x v = pos_x u + 1))"
    by (elim disjE) simp_all
  then show ?thesis
    unfolding manhattanDistance_def by linarith
qed

lemma neighbor_neq: "v \<in> set (getNeighbors u w h) \<Longrightarrow> v \<noteq> u"
  by (auto simp: getNeighbors_iff GridPosition_eq_iff)

lemma tileAt_Inr_mem:
  "tileAt m p = Inr t \<Longrightarrow> \<exists>row \<in> set (tiles m). t \<in> set row"
proof -
  assume a: "tileAt m p = Inr t"
  then have y: "nat (pos_y p) < length (tiles m)"
    and x: "nat (pos_x p) < length (tiles m ! nat (pos_y p))"
    and t: "t = tiles m ! nat (pos_y p) ! nat (pos_x p)"
    by (auto simp: tileAt_def Let_def split: if_splits)
  from y have "tiles m ! nat (pos_y p) \<in> set (tiles m)" by (rule nth_mem)
  moreover from x t have "t \<in> set (tiles m ! nat (pos_y p))" by simp
  ultimately show ?thesis by blast
qed

lemma tileAt_inGrid:
  assumes "wellFormed m" and "inGrid m p"
  shows "\<exists>t. tileAt m p = Inr t"
proof -
  from assms have y: "0 \<le> pos_y p" "nat (pos_y p) < length (tiles m)"
    by (auto simp: wellFormed_def inGrid_def)
  then have "tiles m ! nat (pos_y p) \<in> set (tiles m)" by simp
  with assms have "int (length (tiles m ! nat (pos_y p))) = width m"
    by (simp add: wellFormed_def)
  with assms have "0 \<le> pos_x p" "nat (pos_x p) < length (tiles m ! nat (pos_y p))"
    by (auto simp: inGrid_def)
  with y show ?thesis by (simp add: tileAt_def Let_def)
qed

lemma stepCost_ge1:
  assumes "costsAtLeastOne m" and "enterable m mt p"
  shows "1 \<le> stepCost m mt p"
proof (cases mt)
  case AIR
  then show ?thesis by (simp add: stepCost_def)
next
  case GROUND
  from assms(2) obtain t where t: "tileAt m p = Inr t"
    by (auto simp: enterable_def split: sum.splits)
  with assms(2) GROUND have w: "isWalkable (terrain t)" by (simp add: enterable_def)
  from tileAt_Inr_mem [OF t] assms(1) w have "1 \<le> movementCost (terrain t)"
    by (auto simp: costsAtLeastOne_def)
  with t GROUND show ?thesis by (simp add: stepCost_def)
qed

lemma route_nonneg:
  "route m mt s k p \<Longrightarrow> costsAtLeastOne m \<Longrightarrow> 0 \<le> k"
proof (induction rule: route.induct)
  case route_start
  then show ?case by simp
next
  case (route_step k u v)
  with stepCost_ge1 [of m mt v] show ?case by simp
qed

lemma route_in_grid: "route m mt s k p \<Longrightarrow> p = s \<or> inGrid m p"
  by (induction rule: route.induct) (auto dest: neighbor_inGrid)

lemma finite_grid: "finite {p. inGrid m p}"
proof -
  have "{p. inGrid m p}
      \<subseteq> (\<lambda>(a, b). \<lparr>pos_x = a, pos_y = b\<rparr>) ` ({0..<width m} \<times> {0..<height m})"
  proof
    fix p assume "p \<in> {p. inGrid m p}"
    then have "(pos_x p, pos_y p) \<in> {0..<width m} \<times> {0..<height m}"
      by (simp add: inGrid_def)
    moreover have "p = (\<lambda>(a, b). \<lparr>pos_x = a, pos_y = b\<rparr>) (pos_x p, pos_y p)" by simp
    ultimately show "p \<in> (\<lambda>(a, b). \<lparr>pos_x = a, pos_y = b\<rparr>) ` ({0..<width m} \<times> {0..<height m})"
      by (rule rev_image_eqI)
  qed
  then show ?thesis by (rule finite_subset) simp
qed

lemma finite_reach_space: "finite {p. p = s \<or> inGrid m p}"
proof -
  have "{p. p = s \<or> inGrid m p} = insert s {p. inGrid m p}" by auto
  then show ?thesis by (simp add: finite_grid)
qed

section \<open>Pathfinding: the neighbour loop of findPath\<close>

lemma processNeighbors_Cons:
  assumes "tileAt m v = Inr t"
  shows "processNeighbors m mt None goal C cur (v # ns) openSet
       = processNeighbors m mt None goal C cur ns (relaxOpen m mt goal C cur openSet v)"
  using assms
  by (simp add: relaxOpen_def enterable_def stepCost_def Let_def split: option.splits)

lemma processNeighbors_fold:
  assumes "\<forall>v \<in> set ns. \<exists>t. tileAt m v = Inr t"
  shows "processNeighbors m mt None goal C cur ns openSet
       = Inr (foldl (relaxOpen m mt goal C cur) openSet ns)"
  using assms
proof (induction ns arbitrary: openSet)
  case Nil
  then show ?case by simp
next
  case (Cons v ns)
  then obtain t where "tileAt m v = Inr t" by auto
  from processNeighbors_Cons [OF this] Cons show ?case by simp
qed

lemma openLe_refl: "openLe xs xs"
  by (auto simp: openLe_def)

lemma openLe_trans: "openLe xs ys \<Longrightarrow> openLe ys zs \<Longrightarrow> openLe xs zs"
  unfolding openLe_def by (metis order_trans)

lemma find_position:
  "find (\<lambda>node. pos_x (node_position node) = pos_x v \<and> pos_y (node_position node) = pos_y v) xs
     = find (\<lambda>node. node_position node = v) xs"
  by (simp add: GridPosition_eq_iff)

lemma find_position_None:
  "find (\<lambda>node. node_position node = v) xs = None \<longleftrightarrow> v \<notin> node_position ` set xs"
  by (auto simp: find_None_iff)

lemma find_position_Some:
  "find (\<lambda>node. node_position node = v) xs = Some ex \<Longrightarrow> ex \<in> set xs \<and> node_position ex = v"
  by (auto simp: find_Some_iff)

lemma updateExisting_positions:
  "map node_position (updateExisting v g cur xs) = map node_position xs"
  by (induction xs) simp_all

lemma updateExisting_mem:
  "n' \<in> set (updateExisting v g cur xs) \<Longrightarrow>
   n' \<in> set xs \<or> (\<exists>e \<in> set xs. node_position e = v
                      \<and> n' = PathNode v g (hCost e) (g + hCost e) (Some cur))"
proof (induction xs)
  case Nil
  then show ?case by simp
next
  case (Cons x xs)
  show ?case
  proof (cases "node_position x = v")
    case True
    with Cons.prems show ?thesis by auto
  next
    case False
    then have "\<not> (pos_x (node_position x) = pos_x v \<and> pos_y (node_position x) = pos_y v)"
      by (simp add: GridPosition_eq_iff)
    with Cons show ?thesis by auto
  qed
qed

lemma updateExisting_le:
  "find (\<lambda>node. node_position node = v) xs = Some ex \<Longrightarrow> g \<le> gCost ex \<Longrightarrow>
   openLe xs (updateExisting v g cur xs)"
proof (induction xs)
  case Nil
  then show ?case by simp
next
  case (Cons x xs)
  show ?case
  proof (cases "node_position x = v")
    case True
    with Cons.prems have "ex = x" by simp
    with True Cons.prems(2) show ?thesis
      by (auto simp: openLe_def)
  next
    case False
    then have nf: "\<not> (pos_x (node_position x) = pos_x v \<and> pos_y (node_position x) = pos_y v)"
      by (simp add: GridPosition_eq_iff)
    from False Cons.prems have "find (\<lambda>node. node_position node = v) xs = Some ex" by simp
    from Cons.IH [OF this Cons.prems(2)] nf show ?thesis
      by (auto simp: openLe_def)
  qed
qed

lemma updateExisting_has:
  "find (\<lambda>node. node_position node = v) xs = Some ex \<Longrightarrow>
   \<exists>n' \<in> set (updateExisting v g cur xs). node_position n' = v \<and> gCost n' = g"
proof (induction xs)
  case Nil
  then show ?case by simp
next
  case (Cons x xs)
  show ?case
  proof (cases "node_position x = v")
    case True
    then show ?thesis by simp
  next
    case False
    then have nf: "\<not> (pos_x (node_position x) = pos_x v \<and> pos_y (node_position x) = pos_y v)"
      by (simp add: GridPosition_eq_iff)
    from False Cons.prems have "find (\<lambda>node. node_position node = v) xs = Some ex" by simp
    from Cons.IH [OF this] nf show ?thesis by auto
  qed
qed

lemma relaxOpen_cases:
  "relaxOpen m mt goal C cur xs v =
     (if \<not> enterable m mt v \<or> C v \<noteq> None then xs
      else case find (\<lambda>node. node_position node = v) xs of
             None \<Rightarrow> xs @ [PathNode v (gCost cur + stepCost m mt v)
                                  (manhattanDistance v goal)
                                  (gCost cur + stepCost m mt v + manhattanDistance v goal)
                                  (Some cur)]
           | Some ex \<Rightarrow>
               if gCost cur + stepCost m mt v < gCost ex
               then updateExisting v (gCost cur + stepCost m mt v) cur xs
               else xs)"
  unfolding relaxOpen_def find_position ..

lemma relaxOpen_le: "openLe xs (relaxOpen m mt goal C cur xs v)"
proof -
  have "openLe xs (updateExisting v (gCost cur + stepCost m mt v) cur xs)"
    if "find (\<lambda>node. node_position node = v) xs = Some ex"
      "gCost cur + stepCost m mt v < gCost ex" for ex
    using updateExisting_le [OF that(1), of "gCost cur + stepCost m mt v" cur] that(2) by simp
  then show ?thesis
    unfolding relaxOpen_cases
    by (auto simp: openLe_refl split: option.splits) (auto simp: openLe_def)
qed

lemma relaxOpen_positions:
  "node_position ` set (relaxOpen m mt goal C cur xs v) \<subseteq> insert v (node_position ` set xs)"
proof -
  have "node_position ` set (updateExisting v g cur xs) = node_position ` set xs" for g
    using updateExisting_positions [of v g cur xs] by (metis set_map)
  then show ?thesis
    unfolding relaxOpen_cases by (auto split: option.splits)
qed

lemma relaxOpen_new:
  assumes "enterable m mt v" and "C v = None"
  shows "\<exists>n' \<in> set (relaxOpen m mt goal C cur xs v).
           node_position n' = v \<and> gCost n' \<le> gCost cur + stepCost m mt v"
proof (cases "find (\<lambda>node. node_position node = v) xs")
  case None
  with assms show ?thesis unfolding relaxOpen_cases by simp
next
  case (Some ex)
  show ?thesis
  proof (cases "gCost cur + stepCost m mt v < gCost ex")
    case True
    with updateExisting_has [OF Some, of "gCost cur + stepCost m mt v" cur] Some assms
    show ?thesis unfolding relaxOpen_cases by auto
  next
    case False
    with find_position_Some [OF Some] Some assms
    show ?thesis unfolding relaxOpen_cases by auto
  qed
qed

lemma relaxOpen_inv:
  assumes inv: "openInv m mt s goal C xs"
    and cur: "goodNode m mt s goal cur"
    and v: "v \<in> set (getNeighbors (node_position cur) (width m) (height m))"
  shows "openInv m mt s goal C (relaxOpen m mt goal C cur xs v)"
proof (cases "\<not> enterable m mt v \<or> C v \<noteq> None")
  case True
  with inv show ?thesis unfolding relaxOpen_cases by simp
next
  case False
  then have ent: "enterable m mt v" and cv: "C v = None" by auto
  let ?g = "gCost cur + stepCost m mt v"
  from cur v ent have r: "route m mt s ?g v"
    unfolding goodNode_def by (auto intro: route_step)
  show ?thesis
  proof (cases "find (\<lambda>node. node_position node = v) xs")
    case None
    then have "v \<notin> node_position ` set xs" by (simp add: find_position_None)
    with inv r cv None False show ?thesis
      unfolding relaxOpen_cases openInv_def goodNode_def by auto
  next
    case (Some ex)
    show ?thesis
    proof (cases "?g < gCost ex")
      case lt: True
      have eq: "relaxOpen m mt goal C cur xs v = updateExisting v ?g cur xs"
        using Some lt False unfolding relaxOpen_cases by simp
      have good: "goodNode m mt s goal n'" if "n' \<in> set (updateExisting v ?g cur xs)" for n'
      proof -
        from updateExisting_mem [OF that]
        consider "n' \<in> set xs"
          | e where "e \<in> set xs" "node_position e = v"
            "n' = PathNode v ?g (hCost e) (?g + hCost e) (Some cur)" by blast
        then show ?thesis
        proof cases
          case 1
          with inv show ?thesis by (simp add: openInv_def)
        next
          case 2
          with inv have "hCost e = manhattanDistance v goal"
            by (auto simp: openInv_def goodNode_def)
          with 2 r show ?thesis by (simp add: goodNode_def)
        qed
      qed
      have pos: "map node_position (updateExisting v ?g cur xs) = map node_position xs"
        by (rule updateExisting_positions)
      then have "node_position ` set (updateExisting v ?g cur xs) = node_position ` set xs"
        by (metis set_map)
      with inv have "\<forall>n \<in> set (updateExisting v ?g cur xs). C (node_position n) = None"
        unfolding openInv_def by (metis imageE imageI)
      with good pos inv show ?thesis
        unfolding eq openInv_def by simp
    next
      case False
      with Some inv show ?thesis unfolding relaxOpen_cases by simp
    qed
  qed
qed

lemma foldl_relaxOpen:
  assumes "openInv m mt s goal C xs"
    and "goodNode m mt s goal cur"
    and "set ns \<subseteq> set (getNeighbors (node_position cur) (width m) (height m))"
  shows "openInv m mt s goal C (foldl (relaxOpen m mt goal C cur) xs ns)
       \<and> openLe xs (foldl (relaxOpen m mt goal C cur) xs ns)
       \<and> (\<forall>v \<in> set ns. enterable m mt v \<and> C v = None \<longrightarrow>
             (\<exists>n' \<in> set (foldl (relaxOpen m mt goal C cur) xs ns).
                 node_position n' = v \<and> gCost n' \<le> gCost cur + stepCost m mt v))
       \<and> node_position ` set (foldl (relaxOpen m mt goal C cur) xs ns)
            \<subseteq> set ns \<union> node_position ` set xs"
  using assms
proof (induction ns arbitrary: xs)
  case Nil
  then show ?case by (simp add: openLe_refl)
next
  case (Cons v ns)
  let ?xs1 = "relaxOpen m mt goal C cur xs v"
  let ?xs2 = "foldl (relaxOpen m mt goal C cur) ?xs1 ns"
  from Cons.prems have v: "v \<in> set (getNeighbors (node_position cur) (width m) (height m))"
    and ns: "set ns \<subseteq> set (getNeighbors (node_position cur) (width m) (height m))" by auto
  have inv1: "openInv m mt s goal C ?xs1"
    using relaxOpen_inv [OF Cons.prems(1,2) v] .
  from Cons.IH [OF inv1 Cons.prems(2) ns]
  have inv2: "openInv m mt s goal C ?xs2" and le2: "openLe ?xs1 ?xs2"
    and new2: "\<forall>v \<in> set ns. enterable m mt v \<and> C v = None \<longrightarrow>
             (\<exists>n' \<in> set ?xs2. node_position n' = v \<and> gCost n' \<le> gCost cur + stepCost m mt v)"
    and pos2: "node_position ` set ?xs2 \<subseteq> set ns \<union> node_position ` set ?xs1"
    by blast+
  have le: "openLe xs ?xs2"
    using relaxOpen_le le2 by (rule openLe_trans)
  have newv: "\<exists>n' \<in> set ?xs2. node_position n' = v \<and> gCost n' \<le> gCost cur + stepCost m mt v"
    if "enterable m mt v" "C v = None"
  proof -
    from relaxOpen_new [where C = C and v = v and m = m and mt = mt and goal = goal and cur = cur and xs = xs, OF that]
    obtain n1 where n1: "n1 \<in> set ?xs1" "node_position n1 = v"
      "gCost n1 \<le> gCost cur + stepCost m mt v" by blast
    with le2 obtain n2 where "n2 \<in> set ?xs2" "node_position n2 = node_position n1"
      "gCost n2 \<le> gCost n1" unfolding openLe_def by blast
    with n1 show ?thesis by (intro bexI [of _ n2]) auto
  qed
  have pos: "node_position ` set ?xs2 \<subseteq> set (v # ns) \<union> node_position ` set xs"
    using pos2 relaxOpen_positions [of m mt goal C cur xs v] by auto
  show ?case
    using inv2 le newv new2 pos by simp
qed

section \<open>Pathfinding: findPath returns a cheapest route\<close>

lemma set_insort_key_pn: "set (insort_key f x xs) = insert x (set xs)"
  by (induction xs) auto

lemma distinct_map_insort_key:
  "distinct (map g (insort_key f x xs)) = (g x \<notin> g ` set xs \<and> distinct (map g xs))"
  by (induction xs) (auto simp: set_insort_key_pn)

lemma distinct_map_sort_key:
  "distinct (map g (sort_key f xs)) = distinct (map g xs)"
  by (induction xs) (auto simp: sort_key_simps distinct_map_insort_key)

lemma sort_key_hd_min:
  assumes "xs \<noteq> []"
  shows "sort_key f xs = hd (sort_key f xs) # tl (sort_key f xs)"
    and "hd (sort_key f xs) \<in> set xs"
    and "\<forall>n \<in> set xs. f (hd (sort_key f xs)) \<le> f n"
    and "set (tl (sort_key f xs)) \<subseteq> set xs"
proof -
  from assms have ne: "sort_key f xs \<noteq> []"
    by (metis length_0_conv length_sort)
  then show c: "sort_key f xs = hd (sort_key f xs) # tl (sort_key f xs)" by simp
  have "sorted (map f (sort_key f xs))" by (rule sorted_sort_key)
  with c have "sorted (map f (hd (sort_key f xs) # tl (sort_key f xs)))" by simp
  then have "\<forall>n \<in> set (tl (sort_key f xs)). f (hd (sort_key f xs)) \<le> f n" by simp
  moreover have s: "set xs = insert (hd (sort_key f xs)) (set (tl (sort_key f xs)))"
    using c by (metis list.simps(15) set_sort)
  ultimately show "\<forall>n \<in> set xs. f (hd (sort_key f xs)) \<le> f n" by auto
  from s show "hd (sort_key f xs) \<in> set xs" and "set (tl (sort_key f xs)) \<subseteq> set xs" by auto
qed

lemma astar_frontier:
  assumes inv: "astarInv m mt s goal openSet C" and costs: "costsAtLeastOne m"
    and r: "route m mt s k p"
  shows "C p \<noteq> None \<or> (\<exists>n \<in> set openSet. fCost n \<le> k + manhattanDistance p goal)"
  using r
proof (induction rule: route.induct)
  case route_start
  from inv have "C s \<noteq> None \<or> (\<exists>n \<in> set openSet. node_position n = s \<and> gCost n \<le> 0)"
    by (simp add: astarInv_def)
  then show ?case
  proof
    assume "C s \<noteq> None" then show ?thesis by simp
  next
    assume "\<exists>n \<in> set openSet. node_position n = s \<and> gCost n \<le> 0"
    then obtain n where n: "n \<in> set openSet" "node_position n = s" "gCost n \<le> 0" by blast
    with inv have "fCost n = gCost n + manhattanDistance s goal"
      by (auto simp: astarInv_def openInv_def goodNode_def)
    with n show ?thesis by (intro disjI2 bexI [of _ n]) auto
  qed
next
  case (route_step k u v)
  have sc: "1 \<le> stepCost m mt v" using costs route_step.hyps(3) by (rule stepCost_ge1)
  have h: "manhattanDistance u goal \<le> manhattanDistance v goal + 1"
    using route_step.hyps(2) by (rule neighbor_heuristic)
  from route_step.IH show ?case
  proof
    assume "C u \<noteq> None"
    then obtain nu where nu: "C u = Some nu" by auto
    with inv route_step.hyps(1) have gu: "gCost nu \<le> k" by (auto simp: astarInv_def)
    from inv nu route_step.hyps(2,3)
    have "C v \<noteq> None \<or> (\<exists>n' \<in> set openSet. node_position n' = v
                       \<and> gCost n' \<le> gCost nu + stepCost m mt v)"
      unfolding astarInv_def by blast
    then show ?thesis
    proof
      assume "C v \<noteq> None" then show ?thesis by simp
    next
      assume "\<exists>n' \<in> set openSet. node_position n' = v \<and> gCost n' \<le> gCost nu + stepCost m mt v"
      then obtain n' where n': "n' \<in> set openSet" "node_position n' = v"
        "gCost n' \<le> gCost nu + stepCost m mt v" by blast
      with inv have "fCost n' = gCost n' + manhattanDistance v goal"
        by (auto simp: astarInv_def openInv_def goodNode_def)
      with n' gu show ?thesis by (intro disjI2 bexI [of _ n']) auto
    qed
  next
    assume "\<exists>n \<in> set openSet. fCost n \<le> k + manhattanDistance u goal"
    then obtain n where "n \<in> set openSet" "fCost n \<le> k + manhattanDistance u goal" by blast
    with sc h show ?thesis by (intro disjI2 bexI [of _ n]) auto
  qed
qed

text \<open>
  Total correctness of the search loop, by induction on the number of positions not yet
  closed: it returns, without error; it returns a path exactly when the goal can be
  reached, and then the cost of a cheapest route.
\<close>

lemma findPath_loop_correct:
  assumes wf: "wellFormed m" and costs: "costsAtLeastOne m"
    and inv0: "astarInv m mt s goal openSet C"
  shows "\<exists>res. findPath_loop m mt None goal openSet C = Some (Inr res)
           \<and> (case res of
                 None \<Rightarrow> (\<forall>k. \<not> route m mt s k goal)
               | Some P \<Rightarrow> route m mt s (cost P) goal
                           \<and> (\<forall>k. route m mt s k goal \<longrightarrow> cost P \<le> k))"
  using inv0
proof (induction "card ({p. p = s \<or> inGrid m p} - dom C)" arbitrary: openSet C rule: less_induct)
  case less
  note inv = less.prems
  define sorted where "sorted = sort_key fCost openSet"
  define cur where "cur = hd sorted"
  define rest where "rest = tl sorted"
  from inv have oinv: "openInv m mt s goal C openSet" and goal_open: "C goal = None"
    by (simp_all add: astarInv_def)
  show ?case
  proof (cases "openSet = []")
    case True
    then have "findPath_loop m mt None goal openSet C = Some (Inr None)"
      by (subst findPath_loop.simps) simp
    moreover have "\<not> route m mt s k goal" for k
      using astar_frontier [OF inv costs, of k goal] goal_open True by auto
    ultimately show ?thesis by simp
  next
    case ne: False
  note sk = sort_key_hd_min [OF ne, of fCost]
  from sk(1) have sorted_eq: "sorted = cur # rest"
    by (simp add: sorted_def cur_def rest_def)
  from sk(2) have cur_mem: "cur \<in> set openSet" by (simp add: sorted_def cur_def)
  from sk(3) have cur_min: "\<forall>n \<in> set openSet. fCost cur \<le> fCost n"
    by (simp add: sorted_def cur_def)
  have set_eq: "set openSet = insert cur (set rest)"
    using sorted_eq set_sort [of fCost openSet] by (simp add: sorted_def)
  from oinv have "distinct (map node_position sorted)"
    by (simp add: sorted_def distinct_map_sort_key openInv_def)
  with sorted_eq have dist: "node_position cur \<notin> node_position ` set rest"
    "distinct (map node_position rest)" by auto
  from oinv cur_mem have cur_good: "goodNode m mt s goal cur"
    and cur_open: "C (node_position cur) = None" by (auto simp: openInv_def)
  have cur_in: "node_position cur = s \<or> inGrid m (node_position cur)"
    using cur_good route_in_grid unfolding goodNode_def by blast
  have opt: "gCost cur \<le> k" if "route m mt s k (node_position cur)" for k
  proof -
    from astar_frontier [OF inv costs that] cur_open
    obtain n where "n \<in> set openSet" "fCost n \<le> k + manhattanDistance (node_position cur) goal"
      by auto
    with cur_min have "fCost cur \<le> k + manhattanDistance (node_position cur) goal" by force
    with cur_good show ?thesis by (simp add: goodNode_def)
  qed
  have unfold: "findPath_loop m mt None goal openSet C =
      (if node_position cur = goal then Some (Inr (Some (reconstructPath cur)))
       else case processNeighbors m mt None goal (C(node_position cur \<mapsto> cur)) cur
                   (getNeighbors (node_position cur) (width m) (height m)) rest of
              Inl e \<Rightarrow> Some (Inl e)
            | Inr o2 \<Rightarrow> findPath_loop m mt None goal o2 (C(node_position cur \<mapsto> cur)))"
    unfolding cur_def rest_def sorted_def using ne
    by (subst findPath_loop.simps) (simp add: Let_def GridPosition_eq_iff)
  show ?thesis
  proof (cases "node_position cur = goal")
    case True
    have "cost (reconstructPath cur) = gCost cur" by (simp add: reconstructPath_def)
    moreover from cur_good True have "route m mt s (gCost cur) goal" by (simp add: goodNode_def)
    moreover from opt True have "\<forall>k. route m mt s k goal \<longrightarrow> gCost cur \<le> k" by simp
    ultimately show ?thesis using unfold True by simp
  next
    case False
    define C1 where "C1 = C(node_position cur \<mapsto> cur)"
    define ns where "ns = getNeighbors (node_position cur) (width m) (height m)"
    define o2 where "o2 = foldl (relaxOpen m mt goal C1 cur) rest ns"
    have "\<forall>v \<in> set ns. \<exists>t. tileAt m v = Inr t"
      unfolding ns_def using neighbor_inGrid tileAt_inGrid [OF wf] by blast
    then have pn: "processNeighbors m mt None goal C1 cur ns rest = Inr o2"
      unfolding o2_def by (rule processNeighbors_fold)
    have "C1 (node_position n) = None" if "n \<in> set rest" for n
    proof -
      from that dist(1) have "node_position n \<noteq> node_position cur" by (metis imageI)
      moreover from that set_eq oinv have "C (node_position n) = None"
        by (simp add: openInv_def)
      ultimately show ?thesis by (simp add: C1_def)
    qed
    then have oinv1: "openInv m mt s goal C1 rest"
      using oinv dist(2) set_eq unfolding openInv_def by simp
    have nsub: "set ns \<subseteq> set (getNeighbors (node_position cur) (width m) (height m))"
      by (simp add: ns_def)
    from foldl_relaxOpen [OF oinv1 cur_good nsub]
    have oinv2: "openInv m mt s goal C1 o2" and le2: "openLe rest o2"
      and new2: "\<forall>v \<in> set ns. enterable m mt v \<and> C1 v = None \<longrightarrow>
             (\<exists>n' \<in> set o2. node_position n' = v \<and> gCost n' \<le> gCost cur + stepCost m mt v)"
      unfolding o2_def by blast+
    have carry: "C1 v \<noteq> None \<or> (\<exists>n'' \<in> set o2. node_position n'' = v \<and> gCost n'' \<le> b)"
      if "n' \<in> set openSet" "node_position n' = v" "gCost n' \<le> b" for n' v b
    proof (cases "n' = cur")
      case True
      with that show ?thesis by (simp add: C1_def)
    next
      case False
      with that set_eq have "n' \<in> set rest" by auto
      with le2 obtain n'' where "n'' \<in> set o2" "node_position n'' = node_position n'"
        "gCost n'' \<le> gCost n'" unfolding openLe_def by blast
      with that show ?thesis by (intro disjI2 bexI [of _ n'']) auto
    qed
    have i2: "\<forall>p n. C1 p = Some n \<longrightarrow> (\<forall>k. route m mt s k p \<longrightarrow> gCost n \<le> k)"
    proof (intro allI impI)
      fix p n k assume a: "C1 p = Some n" "route m mt s k p"
      show "gCost n \<le> k"
      proof (cases "p = node_position cur")
        case True
        with a opt show ?thesis by (simp add: C1_def)
      next
        case False
        with a inv show ?thesis unfolding astarInv_def C1_def by auto
      qed
    qed
    have i3: "\<forall>p n v. C1 p = Some n \<longrightarrow> v \<in> set (getNeighbors p (width m) (height m))
            \<longrightarrow> enterable m mt v
            \<longrightarrow> C1 v \<noteq> None
                \<or> (\<exists>n' \<in> set o2. node_position n' = v \<and> gCost n' \<le> gCost n + stepCost m mt v)"
    proof (intro allI impI)
      fix p n v
      assume a: "C1 p = Some n" "v \<in> set (getNeighbors p (width m) (height m))"
        "enterable m mt v"
      show "C1 v \<noteq> None
          \<or> (\<exists>n' \<in> set o2. node_position n' = v \<and> gCost n' \<le> gCost n + stepCost m mt v)"
      proof (cases "p = node_position cur")
        case True
        with a have "n = cur" "v \<in> set ns" by (simp_all add: C1_def ns_def)
        with new2 a(3) show ?thesis by (cases "C1 v = None") auto
      next
        case False
        with a have "C p = Some n" by (simp add: C1_def)
        with inv a(2,3)
        have "C v \<noteq> None \<or> (\<exists>n' \<in> set openSet. node_position n' = v
                \<and> gCost n' \<le> gCost n + stepCost m mt v)"
          unfolding astarInv_def by blast
        then show ?thesis
        proof
          assume "C v \<noteq> None" then show ?thesis by (simp add: C1_def)
        next
          assume "\<exists>n' \<in> set openSet. node_position n' = v
                \<and> gCost n' \<le> gCost n + stepCost m mt v"
          then obtain n' where "n' \<in> set openSet" "node_position n' = v"
            "gCost n' \<le> gCost n + stepCost m mt v" by blast
          then show ?thesis by (rule carry)
        qed
      qed
    qed
    have i4: "C1 s \<noteq> None \<or> (\<exists>n \<in> set o2. node_position n = s \<and> gCost n \<le> 0)"
    proof -
      from inv have "C s \<noteq> None \<or> (\<exists>n \<in> set openSet. node_position n = s \<and> gCost n \<le> 0)"
        by (simp add: astarInv_def)
      then show ?thesis
      proof
        assume "C s \<noteq> None" then show ?thesis by (simp add: C1_def)
      next
        assume "\<exists>n \<in> set openSet. node_position n = s \<and> gCost n \<le> 0"
        then obtain n where "n \<in> set openSet" "node_position n = s" "gCost n \<le> 0" by blast
        then show ?thesis by (rule carry)
      qed
    qed
    have i5: "C1 goal = None" using False goal_open by (simp add: C1_def)
    have i6: "\<forall>p. C1 p \<noteq> None \<longrightarrow> p = s \<or> inGrid m p"
      using inv cur_in unfolding astarInv_def C1_def by auto
    have inv2: "astarInv m mt s goal o2 C1"
      unfolding astarInv_def using oinv2 i2 i3 i4 i5 i6 by blast
    have meas: "card ({p. p = s \<or> inGrid m p} - dom C1)
        < card ({p. p = s \<or> inGrid m p} - dom C)"
    proof -
      have mem: "node_position cur \<in> {p. p = s \<or> inGrid m p} - dom C"
        using cur_in cur_open by auto
      have fin: "finite ({p. p = s \<or> inGrid m p} - dom C)"
        using finite_reach_space [of s m] by simp
      have "{p. p = s \<or> inGrid m p} - dom C1
          = ({p. p = s \<or> inGrid m p} - dom C) - {node_position cur}"
        by (auto simp: C1_def)
      then show ?thesis
        using card_Diff1_less [OF fin mem] by simp
    qed
    have "findPath_loop m mt None goal openSet C = findPath_loop m mt None goal o2 C1"
      using unfold False pn by (simp add: C1_def ns_def)
    with less.hyps [OF meas inv2] show ?thesis by simp
  qed
qed
qed

lemma findPath_correct:
  assumes wf: "wellFormed m" and costs: "costsAtLeastOne m"
  shows "\<exists>res. findPath m s goal mt None = Some (Inr res)
           \<and> (case res of
                 None \<Rightarrow> (\<forall>k. \<not> route m mt s k goal)
               | Some P \<Rightarrow> route m mt s (cost P) goal
                           \<and> (\<forall>k. route m mt s k goal \<longrightarrow> cost P \<le> k))"
proof (cases "s = goal")
  case True
  have "findPath m s goal mt None = Some (Inr (Some \<lparr>path = [], cost = 0\<rparr>))"
    using True by (simp add: findPath_def)
  moreover have "route m mt s 0 goal" using True by (simp add: route_start)
  moreover have "\<forall>k. route m mt s k goal \<longrightarrow> 0 \<le> k"
    using costs route_nonneg by blast
  ultimately show ?thesis by simp
next
  case False
  let ?start = "PathNode s 0 (manhattanDistance s goal) (0 + manhattanDistance s goal) None"
  have "goodNode m mt s goal ?start"
    by (simp add: goodNode_def route_start)
  then have "astarInv m mt s goal [?start] Map.empty"
    by (simp add: astarInv_def openInv_def)
  note loop = findPath_loop_correct [OF wf costs this]
  have "findPath m s goal mt None = findPath_loop m mt None goal [?start] Map.empty"
    using False unfolding findPath_def Let_def by (auto simp: GridPosition_eq_iff)
  with loop show ?thesis by simp
qed

lemma findPath_reachable:
  assumes wf: "wellFormed m" and costs: "costsAtLeastOne m" and reach: "route m mt s c goal"
  shows "\<exists>P. findPath m s goal mt None = Some (Inr (Some P))
           \<and> route m mt s (cost P) goal \<and> (\<forall>k. route m mt s k goal \<longrightarrow> cost P \<le> k)"
proof -
  from findPath_correct [OF wf costs, of s goal mt]
  obtain res where res: "findPath m s goal mt None = Some (Inr res)"
    "case res of None \<Rightarrow> (\<forall>k. \<not> route m mt s k goal)
     | Some P \<Rightarrow> route m mt s (cost P) goal
                  \<and> (\<forall>k. route m mt s k goal \<longrightarrow> cost P \<le> k)" by blast
  from res(2) reach obtain P where "res = Some P" by (cases res) auto
  with res show ?thesis by auto
qed

lemma findPath_found:
  assumes wf: "wellFormed m" and costs: "costsAtLeastOne m"
    and found: "findPath m s goal mt None = Some (Inr (Some P))"
  shows "route m mt s (cost P) goal \<and> (\<forall>k. route m mt s k goal \<longrightarrow> cost P \<le> k)"
  using findPath_correct [OF wf costs, of s goal mt] found by auto

section \<open>Pathfinding: findMovementRange records the cheapest costs\<close>

lemma rangeNeighbors_Cons:
  assumes "tileAt m v = Inr t"
  shows "rangeNeighbors m mt B u (v # ns) (R, Q)
       = rangeNeighbors m mt B u ns (fst (relaxRange m mt B u (R, Q) v),
                                     snd (relaxRange m mt B u (R, Q) v))"
  using assms
  by (simp add: relaxRange_def enterable_def stepCost_def Let_def split: option.splits)

lemma rangeNeighbors_fold:
  assumes "\<forall>v \<in> set ns. \<exists>t. tileAt m v = Inr t"
  shows "rangeNeighbors m mt B u ns st = Inr (foldl (relaxRange m mt B u) st ns)"
  using assms
proof (induction ns arbitrary: st)
  case Nil
  then show ?case by (cases st) simp
next
  case (Cons v ns)
  then obtain t where t: "tileAt m v = Inr t" by auto
  obtain R Q where st: "st = (R, Q)" by (cases st)
  from rangeNeighbors_Cons [OF t, of mt B u ns R Q] Cons st show ?case by simp
qed

lemma rangeLe_refl: "rangeLe R R"
  by (simp add: rangeLe_def)

lemma rangeLe_trans: "rangeLe R R' \<Longrightarrow> rangeLe R' R'' \<Longrightarrow> rangeLe R R''"
  unfolding rangeLe_def by (metis order_trans)

lemma rangePot_update:
  assumes v: "v = s \<or> inGrid m v" and c: "0 \<le> c"
    and lt: "case R v of None \<Rightarrow> c \<le> B | Some known \<Rightarrow> c < known"
  shows "rangePot m s B (R(v \<mapsto> c)) < rangePot m s B R"
proof -
  let ?G = "{p. p = s \<or> inGrid m p}"
  let ?f = "\<lambda>R p. nat (case R p of None \<Rightarrow> max B 0 + 1 | Some c \<Rightarrow> c)"
  have fin: "finite ?G" by (rule finite_reach_space)
  from v have mem: "v \<in> ?G" by simp
  have rest: "sum (?f (R(v \<mapsto> c))) (?G - {v}) = sum (?f R) (?G - {v})"
    by (rule sum.cong) auto
  have "?f (R(v \<mapsto> c)) v < ?f R v"
    using c lt by (auto split: option.splits)
  then have "?f (R(v \<mapsto> c)) v + sum (?f (R(v \<mapsto> c))) (?G - {v})
      < ?f R v + sum (?f R) (?G - {v})"
    unfolding rest by simp
  moreover have "sum (?f (R(v \<mapsto> c))) ?G
      = ?f (R(v \<mapsto> c)) v + sum (?f (R(v \<mapsto> c))) (?G - {v})"
    using fin mem by (rule sum.remove)
  moreover have "sum (?f R) ?G = ?f R v + sum (?f R) (?G - {v})"
    using fin mem by (rule sum.remove)
  ultimately show ?thesis
    unfolding rangePot_def by linarith
qed

lemma rangeStepRel_refl:
  "rangeInv m mt s B (fst st) \<Longrightarrow> fst st u = Some cu \<Longrightarrow> rangeStepRel m mt s B u cu st st"
  by (simp add: rangeStepRel_def rangeLe_refl)

lemma rangeStepRel_trans:
  assumes a: "rangeStepRel m mt s B u cu st st1" and b: "rangeStepRel m mt s B u cu st1 st2"
  shows "rangeStepRel m mt s B u cu st st2"
proof -
  have le: "rangeLe (fst st) (fst st2)"
    using a b unfolding rangeStepRel_def by (blast intro: rangeLe_trans)
  have sub: "set (snd st) \<subseteq> set (snd st2)"
    using a b unfolding rangeStepRel_def by blast
  have ch: "p \<in> fst ` set (snd st2)"
    if "fst st2 p = Some c" "fst st p \<noteq> Some c" "c < B" for p c
  proof (cases "fst st1 p = Some c")
    case True
    with that a have "p \<in> fst ` set (snd st1)" unfolding rangeStepRel_def by blast
    moreover from b have "set (snd st1) \<subseteq> set (snd st2)" unfolding rangeStepRel_def by blast
    ultimately show ?thesis by blast
  next
    case False
    with that b show ?thesis unfolding rangeStepRel_def by blast
  qed
  have pot: "rangePot m s B (fst st2) + length (snd st2)
      \<le> rangePot m s B (fst st) + length (snd st)"
    using a b unfolding rangeStepRel_def by linarith
  have q: "(\<forall>q \<in> set (snd st). fst st (fst q) \<noteq> None)
           \<longrightarrow> (\<forall>q \<in> set (snd st2). fst st2 (fst q) \<noteq> None)"
    using a b unfolding rangeStepRel_def by blast
  from b have "rangeInv m mt s B (fst st2)" "fst st2 u = Some cu"
    unfolding rangeStepRel_def by blast+
  with le sub ch pot q show ?thesis
    unfolding rangeStepRel_def by blast
qed

lemma relaxRange_step:
  assumes costs: "costsAtLeastOne m" and inv: "rangeInv m mt s B (fst st)"
    and ru: "fst st u = Some cu"
    and v: "v \<in> set (getNeighbors u (width m) (height m))"
  shows "rangeStepRel m mt s B u cu st (relaxRange m mt B u st v)
       \<and> (enterable m mt v \<longrightarrow>
            (\<exists>c'. fst (relaxRange m mt B u st v) v = Some c' \<and> c' \<le> cu + stepCost m mt v)
            \<or> cu + stepCost m mt v > B)"
proof -
  obtain R Q where st: "st = (R, Q)" by (cases st)
  let ?c = "cu + stepCost m mt v"
  let ?cond = "(case R v of None \<Rightarrow> True | Some known \<Rightarrow> ?c < known) \<and> ?c \<le> B"
  show ?thesis
  proof (cases "enterable m mt v \<and> ?cond")
    case False
    then have eq: "relaxRange m mt B u st v = st"
      using ru st by (auto simp: relaxRange_def)
    have "(\<exists>c'. R v = Some c' \<and> c' \<le> ?c) \<or> ?c > B" if "enterable m mt v"
      using False that by (cases "R v") auto
    then show ?thesis
      unfolding eq using inv ru st by (simp add: rangeStepRel_refl)
  next
    case True
    then have ent: "enterable m mt v" and cond: "?cond" by auto
    let ?R' = "R(v \<mapsto> ?c)"
    let ?Q' = "if B - ?c > 0 then Q @ [(v, B - ?c)] else Q"
    have eq: "relaxRange m mt B u st v = (?R', ?Q')"
      using ru st ent cond by (simp add: relaxRange_def)
    from inv ru st have ru': "route m mt s cu u" by (simp add: rangeInv_def)
    then have cu0: "0 \<le> cu" using costs by (rule route_nonneg)
    have sc: "1 \<le> stepCost m mt v" using costs ent by (rule stepCost_ge1)
    have rv: "route m mt s ?c v" using ru' v ent by (rule route_step)
    have vs: "v \<noteq> s"
    proof
      assume "v = s"
      with inv st have "R v = Some 0" by (simp add: rangeInv_def)
      with cond cu0 sc show False by simp
    qed
    have vu: "v \<noteq> u" using v by (rule neighbor_neq)
    have i1: "rangeInv m mt s B ?R'"
      using inv st rv cond vs unfolding rangeInv_def by auto
    have i2: "rangeLe R ?R'"
      using cond unfolding rangeLe_def by (auto split: option.splits)
    have i3: "?R' u = Some cu" using ru st vu by simp
    have i4: "set Q \<subseteq> set ?Q'" by auto
    have i5: "\<forall>p c. ?R' p = Some c \<longrightarrow> R p \<noteq> Some c \<longrightarrow> c < B \<longrightarrow> p \<in> fst ` set ?Q'"
      by (auto split: if_splits)
    have "v = s \<or> inGrid m v" using v neighbor_inGrid by blast
    moreover have "0 \<le> ?c" using cu0 sc by simp
    moreover have "case R v of None \<Rightarrow> ?c \<le> B | Some known \<Rightarrow> ?c < known"
      using cond by (auto split: option.splits)
    ultimately have "rangePot m s B ?R' < rangePot m s B R" by (rule rangePot_update)
    then have i6: "rangePot m s B ?R' + length ?Q' \<le> rangePot m s B R + length Q" by simp
    have i7: "(\<forall>q \<in> set Q. R (fst q) \<noteq> None) \<longrightarrow> (\<forall>q \<in> set ?Q'. ?R' (fst q) \<noteq> None)"
      by auto
    have "rangeStepRel m mt s B u cu st (?R', ?Q')"
      unfolding rangeStepRel_def st fst_conv snd_conv
      using i1 i2 i3 i4 i5 i6 i7 by blast
    then show ?thesis unfolding eq by simp
  qed
qed

lemma foldl_relaxRange:
  assumes costs: "costsAtLeastOne m" and inv: "rangeInv m mt s B (fst st)"
    and ru: "fst st u = Some cu"
    and ns: "set ns \<subseteq> set (getNeighbors u (width m) (height m))"
  shows "rangeStepRel m mt s B u cu st (foldl (relaxRange m mt B u) st ns)
       \<and> (\<forall>v \<in> set ns. enterable m mt v \<longrightarrow>
            (\<exists>c'. fst (foldl (relaxRange m mt B u) st ns) v = Some c'
                  \<and> c' \<le> cu + stepCost m mt v)
            \<or> cu + stepCost m mt v > B)"
  using inv ru ns
proof (induction ns arbitrary: st)
  case Nil
  then show ?case by (simp add: rangeStepRel_refl)
next
  case (Cons v ns)
  let ?st1 = "relaxRange m mt B u st v"
  let ?st2 = "foldl (relaxRange m mt B u) ?st1 ns"
  from Cons.prems have v: "v \<in> set (getNeighbors u (width m) (height m))"
    and ns: "set ns \<subseteq> set (getNeighbors u (width m) (height m))" by auto
  from relaxRange_step [OF costs Cons.prems(1,2) v]
  have rel1: "rangeStepRel m mt s B u cu st ?st1"
    and new1: "enterable m mt v \<longrightarrow>
            (\<exists>c'. fst ?st1 v = Some c' \<and> c' \<le> cu + stepCost m mt v)
            \<or> cu + stepCost m mt v > B" by blast+
  from rel1 have inv1: "rangeInv m mt s B (fst ?st1)" and ru1: "fst ?st1 u = Some cu"
    unfolding rangeStepRel_def by blast+
  from Cons.IH [OF inv1 ru1 ns]
  have rel2: "rangeStepRel m mt s B u cu ?st1 ?st2"
    and new2: "\<forall>v \<in> set ns. enterable m mt v \<longrightarrow>
            (\<exists>c'. fst ?st2 v = Some c' \<and> c' \<le> cu + stepCost m mt v)
            \<or> cu + stepCost m mt v > B" by blast+
  have rel: "rangeStepRel m mt s B u cu st ?st2"
    using rel1 rel2 by (rule rangeStepRel_trans)
  from rel2 have le2: "rangeLe (fst ?st1) (fst ?st2)" unfolding rangeStepRel_def by blast
  have newv: "(\<exists>c'. fst ?st2 v = Some c' \<and> c' \<le> cu + stepCost m mt v)
            \<or> cu + stepCost m mt v > B" if "enterable m mt v"
  proof -
    from new1 that consider c' where "fst ?st1 v = Some c'" "c' \<le> cu + stepCost m mt v"
      | "cu + stepCost m mt v > B" by blast
    then show ?thesis
    proof cases
      case 1
      with le2 obtain c'' where "fst ?st2 v = Some c''" "c'' \<le> c'"
        unfolding rangeLe_def by blast
      with 1 show ?thesis by auto
    next
      case 2
      then show ?thesis by simp
    qed
  qed
  show ?case using rel newv new2 by simp
qed

text \<open>
  Total correctness of the queue loop, by induction on the sum of the recorded costs
  (with one more than the budget for a position not recorded) plus the queue length.
\<close>

lemma findMovementRange_loop_correct:
  assumes wf: "wellFormed m" and costs: "costsAtLeastOne m"
    and inv0: "rangeInv m mt s B R" and closed0: "rangeClosed m mt B R Q"
    and queued0: "\<forall>q \<in> set Q. R (fst q) \<noteq> None"
  shows "\<exists>R'. findMovementRange_loop m mt B Q R = Some (Inr R')
            \<and> rangeInv m mt s B R' \<and> rangeClosed m mt B R' []"
  using inv0 closed0 queued0
proof (induction "rangePot m s B R + length Q" arbitrary: Q R rule: less_induct)
  case less
  note inv = less.prems(1) and closed = less.prems(2) and queued = less.prems(3)
  show ?case
  proof (cases Q)
    case Nil
    then have "findMovementRange_loop m mt B Q R = Some (Inr R)"
      by (subst findMovementRange_loop.simps) simp
    with inv closed Nil show ?thesis by simp
  next
    case (Cons q rest)
    obtain u r where q: "q = (u, r)" by (cases q)
    from queued Cons q obtain cu where ru: "R u = Some cu" by auto
    define ns where "ns = getNeighbors u (width m) (height m)"
    define st' where "st' = foldl (relaxRange m mt B u) (R, rest) ns"
    have "\<forall>v \<in> set ns. \<exists>t. tileAt m v = Inr t"
      unfolding ns_def using neighbor_inGrid tileAt_inGrid [OF wf] by blast
    then have rn: "rangeNeighbors m mt B u ns (R, rest) = Inr st'"
      unfolding st'_def by (rule rangeNeighbors_fold)
    have unfold: "findMovementRange_loop m mt B Q R
        = findMovementRange_loop m mt B (snd st') (fst st')"
      using Cons q rn
      by (subst findMovementRange_loop.simps) (simp add: ns_def split: prod.splits)
    have nsub: "set ns \<subseteq> set (getNeighbors u (width m) (height m))" by (simp add: ns_def)
    from foldl_relaxRange [where st = "(R, rest)", OF costs _ _ nsub, of mt s B cu] inv ru
    have rel: "rangeStepRel m mt s B u cu (R, rest) st'"
      and new: "\<forall>v \<in> set ns. enterable m mt v \<longrightarrow>
            (\<exists>c'. fst st' v = Some c' \<and> c' \<le> cu + stepCost m mt v)
            \<or> cu + stepCost m mt v > B"
      unfolding st'_def by auto
    from rel have inv': "rangeInv m mt s B (fst st')"
      and le: "rangeLe R (fst st')"
      and ru': "fst st' u = Some cu"
      and sub: "set rest \<subseteq> set (snd st')"
      and ch: "\<forall>p c. fst st' p = Some c \<longrightarrow> R p \<noteq> Some c \<longrightarrow> c < B
             \<longrightarrow> p \<in> fst ` set (snd st')"
      and pot: "rangePot m s B (fst st') + length (snd st') \<le> rangePot m s B R + length rest"
      and qd: "(\<forall>q \<in> set rest. R (fst q) \<noteq> None)
           \<longrightarrow> (\<forall>q \<in> set (snd st'). fst st' (fst q) \<noteq> None)"
      unfolding rangeStepRel_def by simp_all
    have queued': "\<forall>q \<in> set (snd st'). fst st' (fst q) \<noteq> None"
      using qd queued Cons by simp
    have closed': "rangeClosed m mt B (fst st') (snd st')"
      unfolding rangeClosed_def
    proof (intro allI impI ballI)
      fix p c v
      assume a: "fst st' p = Some c" "c < B" "p \<notin> fst ` set (snd st')"
        "v \<in> set (getNeighbors p (width m) (height m))" "enterable m mt v"
      show "(\<exists>c'. fst st' v = Some c' \<and> c' \<le> c + stepCost m mt v) \<or> B < c + stepCost m mt v"
      proof (cases "p = u")
        case True
        with a ru' have "c = cu" "v \<in> set ns" by (simp_all add: ns_def)
        with new a(5) show ?thesis by auto
      next
        case False
        from a(3) sub have "p \<notin> fst ` set rest" by blast
        with False Cons q have pq: "p \<notin> fst ` set Q" by auto
        from ch a(1,2,3) have "R p = Some c" by blast
        with closed a(2,4,5) pq
        have "(\<exists>c'. R v = Some c' \<and> c' \<le> c + stepCost m mt v) \<or> B < c + stepCost m mt v"
          unfolding rangeClosed_def by blast
        then show ?thesis
        proof
          assume "\<exists>c'. R v = Some c' \<and> c' \<le> c + stepCost m mt v"
          then obtain c' where c': "R v = Some c'" "c' \<le> c + stepCost m mt v" by blast
          with le obtain c'' where "fst st' v = Some c''" "c'' \<le> c'"
            unfolding rangeLe_def by blast
          with c' show ?thesis by auto
        next
          assume "B < c + stepCost m mt v" then show ?thesis by simp
        qed
      qed
    qed
    have meas: "rangePot m s B (fst st') + length (snd st') < rangePot m s B R + length Q"
      using pot Cons by simp
    from less.hyps [OF meas inv' closed' queued'] unfold
    show ?thesis by simp
  qed
qed

lemma range_covers:
  assumes costs: "costsAtLeastOne m" and inv: "rangeInv m mt s B R"
    and closed: "rangeClosed m mt B R []"
    and r: "route m mt s k p" and k: "k \<le> B"
  shows "\<exists>c. R p = Some c \<and> c \<le> k"
  using r k
proof (induction rule: route.induct)
  case route_start
  with inv show ?case by (simp add: rangeInv_def)
next
  case (route_step k u v)
  have sc: "1 \<le> stepCost m mt v" using costs route_step.hyps(3) by (rule stepCost_ge1)
  with route_step.prems have "k \<le> B" by simp
  with route_step.IH obtain c where c: "R u = Some c" "c \<le> k" by blast
  with sc route_step.prems have "c < B" by simp
  with closed c(1) route_step.hyps(2,3)
  have "(\<exists>c'. R v = Some c' \<and> c' \<le> c + stepCost m mt v) \<or> c + stepCost m mt v > B"
    unfolding rangeClosed_def by simp
  with c(2) route_step.prems show ?case by auto
qed

lemma range_minimal:
  assumes costs: "costsAtLeastOne m" and inv: "rangeInv m mt s B R"
    and closed: "rangeClosed m mt B R []" and rp: "R p = Some c"
  shows "route m mt s c p \<and> (\<forall>k. route m mt s k p \<longrightarrow> c \<le> k)"
proof (intro conjI allI impI)
  from inv rp show "route m mt s c p" by (simp add: rangeInv_def)
next
  fix k assume rk: "route m mt s k p"
  from inv rp have cb: "c \<le> max B 0" by (simp add: rangeInv_def)
  show "c \<le> k"
  proof (cases "k \<le> B")
    case True
    from range_covers [OF costs inv closed rk True] rp show ?thesis by simp
  next
    case False
    from rk costs have "0 \<le> k" by (rule route_nonneg)
    with False cb show ?thesis by simp
  qed
qed

lemma findMovementRange_correct:
  assumes wf: "wellFormed m" and costs: "costsAtLeastOne m"
  shows "\<exists>R. findMovementRange m s mt B = Some (Inr R)
           \<and> rangeInv m mt s B R \<and> rangeClosed m mt B R []"
proof -
  have "rangeInv m mt s B (Map.empty(s \<mapsto> 0))"
    by (simp add: rangeInv_def route_start)
  moreover have "rangeClosed m mt B (Map.empty(s \<mapsto> 0)) [(s, B)]"
    by (simp add: rangeClosed_def)
  moreover have "\<forall>q \<in> set [(s, B)]. (Map.empty(s \<mapsto> 0)) (fst q) \<noteq> None" by simp
  ultimately show ?thesis
    unfolding findMovementRange_def
    by (rule findMovementRange_loop_correct [OF wf costs])
qed

section \<open>Pathfinding: findPath agrees with findMovementRange\<close>

lemma sampleMap_wellFormed: "wellFormed sampleMap"
  by (simp add: wellFormed_def sampleMap_tiles sampleMap_dims)

lemma sampleMap_costs: "costsAtLeastOne sampleMap"
  by (simp add: costsAtLeastOne_def sampleMap_tiles)

lemma sample_range:
  "(case findMovementRange sampleMap \<lparr>pos_x = 0, pos_y = 0\<rparr> GROUND 4 of
      Some (Inr R) \<Rightarrow> R \<lparr>pos_x = 2, pos_y = 0\<rparr>
    | _ \<Rightarrow> None) = Some 3"
  by code_simp

lemma sample_path:
  "findPath sampleMap \<lparr>pos_x = 0, pos_y = 0\<rparr> \<lparr>pos_x = 2, pos_y = 0\<rparr> GROUND None
     = Some (Inr (Some \<lparr>path = [\<lparr>pos_x = 0, pos_y = 0\<rparr>, \<lparr>pos_x = 1, pos_y = 0\<rparr>,
                                  \<lparr>pos_x = 2, pos_y = 0\<rparr>], cost = 3\<rparr>))"
  by code_simp

text \<open>
  C1. On a well-formed map whose walkable tiles cost at least 1 to enter, for every start,
  movement type and budget, \<open>findMovementRange\<close> returns a cost table, and for every
  position the table records, \<open>findPath\<close> from the start to that position with no cost
  cap returns a path whose cost is the recorded cost. Conversely, every position for
  which \<open>findPath\<close> returns a path of cost within the budget is recorded, with that cost.
\<close>

theorem findPath_cost_equals_range_cost:
  assumes "wellFormed m" and "costsAtLeastOne m"
  shows "\<exists>R. findMovementRange m startPos mt budget = Some (Inr R)
     \<and> (\<forall>p c. R p = Some c \<longrightarrow>
           (\<exists>steps. findPath m startPos p mt None = Some (Inr (Some \<lparr>path = steps, cost = c\<rparr>))))
     \<and> (\<forall>p P. findPath m startPos p mt None = Some (Inr (Some P)) \<longrightarrow> cost P \<le> budget
           \<longrightarrow> R p = Some (cost P))"
proof -
  from findMovementRange_correct [OF assms, of startPos mt budget]
  obtain R where R: "findMovementRange m startPos mt budget = Some (Inr R)"
    "rangeInv m mt startPos budget R" "rangeClosed m mt budget R []" by blast
  have a: "\<exists>steps. findPath m startPos p mt None = Some (Inr (Some \<lparr>path = steps, cost = c\<rparr>))"
    if rp: "R p = Some c" for p c
  proof -
    from range_minimal [OF assms(2) R(2,3) rp]
    have r: "route m mt startPos c p" and mn: "\<forall>k. route m mt startPos k p \<longrightarrow> c \<le> k"
      by blast+
    from findPath_reachable [OF assms r]
    obtain P where P: "findPath m startPos p mt None = Some (Inr (Some P))"
      "route m mt startPos (cost P) p" "\<forall>k. route m mt startPos k p \<longrightarrow> cost P \<le> k"
      by blast
    from mn P(2) P(3) r have "cost P = c" by (simp add: order_antisym)
    then have "P = \<lparr>path = path P, cost = c\<rparr>" by simp
    with P(1) show ?thesis by metis
  qed
  have b: "R p = Some (cost P)"
    if fp: "findPath m startPos p mt None = Some (Inr (Some P))" and le: "cost P \<le> budget"
    for p P
  proof -
    from findPath_found [OF assms fp]
    have r: "route m mt startPos (cost P) p"
      and mn: "\<forall>k. route m mt startPos k p \<longrightarrow> cost P \<le> k" by blast+
    from range_covers [OF assms(2) R(2,3) r le]
    obtain c where c: "R p = Some c" "c \<le> cost P" by blast
    from range_minimal [OF assms(2) R(2,3) c(1)] mn have "cost P \<le> c" by blast
    with c show ?thesis by simp
  qed
  from R(1) a b show ?thesis by blast
qed

theorem findPath_cost_equals_range_cost_witness:
  "wellFormed sampleMap \<and> costsAtLeastOne sampleMap
   \<and> (case findMovementRange sampleMap \<lparr>pos_x = 0, pos_y = 0\<rparr> GROUND 4 of
         Some (Inr R) \<Rightarrow> R \<lparr>pos_x = 2, pos_y = 0\<rparr>
       | _ \<Rightarrow> None) = Some 3
   \<and> findPath sampleMap \<lparr>pos_x = 0, pos_y = 0\<rparr> \<lparr>pos_x = 2, pos_y = 0\<rparr> GROUND None
       = Some (Inr (Some \<lparr>path = [\<lparr>pos_x = 0, pos_y = 0\<rparr>, \<lparr>pos_x = 1, pos_y = 0\<rparr>,
                                    \<lparr>pos_x = 2, pos_y = 0\<rparr>], cost = 3\<rparr>))
   \<and> cost \<lparr>path = [\<lparr>pos_x = 0, pos_y = 0\<rparr>, \<lparr>pos_x = 1, pos_y = 0\<rparr>,
                    \<lparr>pos_x = 2, pos_y = 0\<rparr>], cost = 3\<rparr> \<le> 4"
proof -
  from findPath_cost_equals_range_cost [OF sampleMap_wellFormed sampleMap_costs,
      of "\<lparr>pos_x = 0, pos_y = 0\<rparr>" GROUND 4]
  obtain R where R: "findMovementRange sampleMap \<lparr>pos_x = 0, pos_y = 0\<rparr> GROUND 4 = Some (Inr R)"
    and all: "\<forall>p c. R p = Some c \<longrightarrow>
           (\<exists>steps. findPath sampleMap \<lparr>pos_x = 0, pos_y = 0\<rparr> p GROUND None
                      = Some (Inr (Some \<lparr>path = steps, cost = c\<rparr>)))"
    by blast
  from sample_range R have "R \<lparr>pos_x = 2, pos_y = 0\<rparr> = Some 3" by simp
  with all obtain steps where fp:
    "findPath sampleMap \<lparr>pos_x = 0, pos_y = 0\<rparr> \<lparr>pos_x = 2, pos_y = 0\<rparr> GROUND None
       = Some (Inr (Some \<lparr>path = steps, cost = 3\<rparr>))" by blast
  with sample_path have "steps = [\<lparr>pos_x = 0, pos_y = 0\<rparr>, \<lparr>pos_x = 1, pos_y = 0\<rparr>,
                                    \<lparr>pos_x = 2, pos_y = 0\<rparr>]" by simp
  with fp have
    "findPath sampleMap \<lparr>pos_x = 0, pos_y = 0\<rparr> \<lparr>pos_x = 2, pos_y = 0\<rparr> GROUND None
       = Some (Inr (Some \<lparr>path = [\<lparr>pos_x = 0, pos_y = 0\<rparr>, \<lparr>pos_x = 1, pos_y = 0\<rparr>,
                                    \<lparr>pos_x = 2, pos_y = 0\<rparr>], cost = 3\<rparr>))" by simp
  then show ?thesis
    using sampleMap_wellFormed sampleMap_costs sample_range by simp
qed

end
